theory Spec2Isabelle
  imports Complex_Main "HOL-Library.Word" "HOL-Library.Log_Nat"
begin

unbundle bit_operations_syntax

section \<open>The calling-convention macros of nimbase.h (lines 47 to 96)\<close>

text \<open>
  The header chooses its macro definitions with \<open>#if defined(...)\<close> on the symbols the
  compiler predefines, and (line 304) on \<open>NIM_BIG_ENDIAN\<close>, which the build defines.
  A target is the record of which of these symbols are defined (\<open>U_WIN32\<close> stands for
  \<open>_WIN32\<close>; the compiler symbols are written without their underscores).
\<close>

record target =
  WIN32 :: bool
  U_WIN32 :: bool
  GNUC :: bool
  LCC :: bool
  POCC :: bool
  BORLANDC :: bool
  MSC_VER :: bool
  DMC :: bool
  WATCOMC :: bool
  NIM_BIG_ENDIAN :: bool

text \<open>
  A macro body is a list of preprocessing tokens; a token is either one of the macro's
  parameters or literal text. \<open>ObjMacro\<close> is \<open>#define NAME body\<close>,
  \<open>FunMacro\<close> is \<open>#define NAME(params) body\<close>.
\<close>

datatype ctoken = Param string | Tok string

datatype cmacro = ObjMacro "ctoken list" | FunMacro "string list" "ctoken list"

text \<open>\<open>rettype MOD name\<close> and \<open>rettype (MOD *name)\<close>, the two body shapes of the header.\<close>

definition fn_body :: "string list \<Rightarrow> ctoken list" where
  "fn_body modifier = [Param ''rettype''] @ map Tok modifier @ [Param ''name'']"

definition ptr_body :: "string list \<Rightarrow> ctoken list" where
  "ptr_body modifier =
     [Param ''rettype'', Tok ''(''] @ map Tok modifier @ [Tok ''*'', Param ''name'', Tok '')'']"

definition fn_macro :: "string list \<Rightarrow> cmacro" where
  "fn_macro modifier = FunMacro [''rettype'', ''name''] (fn_body modifier)"

definition ptr_macro :: "string list \<Rightarrow> cmacro" where
  "ptr_macro modifier = FunMacro [''rettype'', ''name''] (ptr_body modifier)"

text \<open>Lines 47 to 77: the \<open>#if defined(WIN32) || defined(_WIN32)\<close> block and its \<open>#else\<close>.\<close>

definition windows_defs :: "(string \<times> cmacro) list" where
  "windows_defs =
    [(''N_CDECL'', fn_macro [''__cdecl'']),
     (''N_STDCALL'', fn_macro [''__stdcall'']),
     (''N_SYSCALL'', fn_macro [''__syscall'']),
     (''N_FASTCALL'', fn_macro [''__fastcall'']),
     (''N_SAFECALL'', fn_macro [''__safecall'']),
     (''N_CDECL_PTR'', ptr_macro [''__cdecl'']),
     (''N_STDCALL_PTR'', ptr_macro [''__stdcall'']),
     (''N_SYSCALL_PTR'', ptr_macro [''__syscall'']),
     (''N_FASTCALL_PTR'', ptr_macro [''__fastcall'']),
     (''N_SAFECALL_PTR'', ptr_macro [''__safecall'']),
     (''N_LIB_EXPORT'', ObjMacro [Tok ''__declspec'', Tok ''('', Tok ''dllexport'', Tok '')'']),
     (''N_LIB_IMPORT'', ObjMacro [Tok ''__declspec'', Tok ''('', Tok ''dllimport'', Tok '')''])]"

definition other_defs :: "(string \<times> cmacro) list" where
  "other_defs =
    [(''N_CDECL'', fn_macro []),
     (''N_STDCALL'', fn_macro []),
     (''N_SYSCALL'', fn_macro []),
     (''N_FASTCALL'', fn_macro []),
     (''N_SAFECALL'', fn_macro []),
     (''N_CDECL_PTR'', ptr_macro []),
     (''N_STDCALL_PTR'', ptr_macro []),
     (''N_SYSCALL_PTR'', ptr_macro []),
     (''N_FASTCALL_PTR'', ptr_macro []),
     (''N_SAFECALL_PTR'', ptr_macro []),
     (''N_LIB_EXPORT'', ObjMacro []),
     (''N_LIB_IMPORT'', ObjMacro [Tok ''extern''])]"

text \<open>Lines 79 to 85: defined on every target.\<close>

definition common_defs :: "(string \<times> cmacro) list" where
  "common_defs =
    [(''N_NOCONV'', fn_macro []),
     (''N_NOCONV_PTR'', ptr_macro []),
     (''N_CLOSURE'', fn_macro []),
     (''N_CLOSURE_PTR'', ptr_macro [])]"

text \<open>Lines 88 to 96: compilers that have a fastcall use it for \<open>N_NIMCALL\<close>.\<close>

definition nimcall_defs :: "target \<Rightarrow> (string \<times> cmacro) list" where
  "nimcall_defs t =
    (if BORLANDC t \<or> WATCOMC t \<or> POCC t \<or> MSC_VER t
     then [(''N_NIMCALL'', fn_macro [''__fastcall'']),
           (''N_NIMCALL_PTR'', ptr_macro [''__fastcall''])]
     else [(''N_NIMCALL'', fn_macro []),
           (''N_NIMCALL_PTR'', ptr_macro [])])"

text \<open>The macro table the preprocessor holds after lines 47 to 96, for a target.\<close>

definition callconv_defs :: "target \<Rightarrow> (string \<times> cmacro) list" where
  "callconv_defs t =
    (if WIN32 t \<or> U_WIN32 t then windows_defs else other_defs) @ common_defs @ nimcall_defs t"

text \<open>
  Macro expansion: an object-like macro takes no arguments, a function-like macro takes as
  many as it has parameters; each parameter token is replaced by its argument. A use with
  the wrong number of arguments does not expand (\<open>None\<close>).
\<close>

fun subst_tok :: "(string \<times> string) list \<Rightarrow> ctoken \<Rightarrow> string" where
  "subst_tok env (Tok s) = s"
| "subst_tok env (Param p) = (case map_of env p of Some a \<Rightarrow> a | None \<Rightarrow> p)"

fun expand :: "cmacro \<Rightarrow> string list \<Rightarrow> string list option" where
  "expand (ObjMacro body) args = (if args = [] then Some (map (subst_tok []) body) else None)"
| "expand (FunMacro ps body) args =
     (if length ps = length args then Some (map (subst_tok (zip ps args)) body) else None)"

text \<open>A use of a macro name: undefined names and wrong uses give \<open>None\<close>.\<close>

definition use_macro :: "(string \<times> cmacro) list \<Rightarrow> string \<Rightarrow> string list \<Rightarrow> string list option" where
  "use_macro defs name args = (case map_of defs name of None \<Rightarrow> None | Some m \<Rightarrow> expand m args)"

text \<open>
  The conventions generated code can name, and the linkage directions, with the macro
  each one is written as.
\<close>

datatype CallConvention = Nimcall | Cdecl | Stdcall | Syscall | Fastcall | Safecall | Closure | NoConv

datatype LinkageDirection = Export | Import

fun conv_macro :: "CallConvention \<Rightarrow> string" where
  "conv_macro Nimcall = ''N_NIMCALL''"
| "conv_macro Cdecl = ''N_CDECL''"
| "conv_macro Stdcall = ''N_STDCALL''"
| "conv_macro Syscall = ''N_SYSCALL''"
| "conv_macro Fastcall = ''N_FASTCALL''"
| "conv_macro Safecall = ''N_SAFECALL''"
| "conv_macro Closure = ''N_CLOSURE''"
| "conv_macro NoConv = ''N_NOCONV''"

fun linkage_macro :: "LinkageDirection \<Rightarrow> string" where
  "linkage_macro Export = ''N_LIB_EXPORT''"
| "linkage_macro Import = ''N_LIB_IMPORT''"

definition resolve_linkage :: "target \<Rightarrow> LinkageDirection \<Rightarrow> string list option" where
  "resolve_linkage t d = use_macro (callconv_defs t) (linkage_macro d) []"

text \<open>
  The resolver: the spelling of a function declaration \<open>N_X(rettype, name)\<close>, of a
  function pointer \<open>N_X_PTR(rettype, name)\<close> and of the linkage macro, on a target.
\<close>

definition resolve ::
  "target \<Rightarrow> CallConvention \<Rightarrow> LinkageDirection \<Rightarrow> string \<Rightarrow> string
     \<Rightarrow> (string list \<times> string list \<times> string list) option" where
  "resolve t cc d rettype name =
     (case use_macro (callconv_defs t) (conv_macro cc) [rettype, name] of
        None \<Rightarrow> None
      | Some f \<Rightarrow>
         (case use_macro (callconv_defs t) (conv_macro cc @ ''_PTR'') [rettype, name] of
            None \<Rightarrow> None
          | Some p \<Rightarrow>
             (case resolve_linkage t d of
                None \<Rightarrow> None
              | Some l \<Rightarrow> Some (f, p, l))))"


section \<open>Memory, and the C library calls behind zeroMem and equalMem\<close>

text \<open>
  Memory is byte addressed; a pointer is an address. The platform fixes the byte order
  and the size and alignment of \<open>NS\<close> (lines 288 to 295: \<open>signed long int\<close>, or
  \<open>signed long long int\<close> under 64-bit Microsoft C).
\<close>

type_synonym byte = "8 word"

type_synonym mem = "nat \<Rightarrow> byte"

record abi =
  big_endian :: bool
  sizeof_NS :: nat
  alignof_NS :: nat

definition load_bytes :: "mem \<Rightarrow> nat \<Rightarrow> nat \<Rightarrow> byte list" where
  "load_bytes m p n = map (\<lambda>i. m (p + i)) [0..<n]"

definition store_bytes :: "mem \<Rightarrow> nat \<Rightarrow> byte list \<Rightarrow> mem" where
  "store_bytes m p bs = (\<lambda>a. if p \<le> a \<and> a < p + length bs then bs ! (a - p) else m a)"

text \<open>
  \<open>memset(s, c, n)\<close> of the C library: the first \<open>n\<close> bytes at \<open>s\<close> become
  \<open>(unsigned char) c\<close>.
\<close>

definition memset :: "mem \<Rightarrow> nat \<Rightarrow> int \<Rightarrow> nat \<Rightarrow> mem" where
  "memset m s c n = (\<lambda>a. if s \<le> a \<and> a < s + n then word_of_int c else m a)"

text \<open>
  \<open>memcmp(a, b, n)\<close> of the C library: the bytes are compared in order as
  \<open>unsigned char\<close>; the result is zero when the first \<open>n\<close> bytes agree and has the
  sign of the difference of the first pair that differs.
\<close>

fun memcmp :: "mem \<Rightarrow> nat \<Rightarrow> nat \<Rightarrow> nat \<Rightarrow> int" where
  "memcmp m a b 0 = 0"
| "memcmp m a b (Suc n) =
     (if m a \<noteq> m b then uint (m a) - uint (m b) else memcmp m (Suc a) (Suc b) n)"

text \<open>Lines 320 and 321.\<close>

definition zeroMem :: "mem \<Rightarrow> nat \<Rightarrow> nat \<Rightarrow> mem" where
  "zeroMem m a size' = memset m a 0 size'"

definition equalMem :: "mem \<Rightarrow> nat \<Rightarrow> nat \<Rightarrow> nat \<Rightarrow> bool" where
  "equalMem m a b size' = (memcmp m a b size' = 0)"

section \<open>The buffer structs (lines 323 to 327 and 391 to 399)\<close>

text \<open>
  A struct declaration is the list of its members in declaration order. C lays the
  members out in that order, each at the next offset that its alignment divides; the
  size of the struct is rounded up to its own alignment, the largest of its members'.
\<close>

datatype ctype = NS | NIM_CHAR | Array ctype nat

fun sizeof :: "abi \<Rightarrow> ctype \<Rightarrow> nat" where
  "sizeof c NS = sizeof_NS c"
| "sizeof c NIM_CHAR = 1"
| "sizeof c (Array ty n) = n * sizeof c ty"

fun alignof :: "abi \<Rightarrow> ctype \<Rightarrow> nat" where
  "alignof c NS = alignof_NS c"
| "alignof c NIM_CHAR = 1"
| "alignof c (Array ty n) = alignof c ty"

definition align_up :: "nat \<Rightarrow> nat \<Rightarrow> nat" where
  "align_up off al = ((off + al - 1) div al) * al"

fun layout :: "abi \<Rightarrow> nat \<Rightarrow> (string \<times> ctype) list \<Rightarrow> (string \<times> nat) list" where
  "layout c off [] = []"
| "layout c off ((f, ty) # fs) =
     (let pos = align_up off (alignof c ty) in (f, pos) # layout c (pos + sizeof c ty) fs)"

fun struct_end :: "abi \<Rightarrow> nat \<Rightarrow> (string \<times> ctype) list \<Rightarrow> nat" where
  "struct_end c off [] = off"
| "struct_end c off ((f, ty) # fs) =
     struct_end c (align_up off (alignof c ty) + sizeof c ty) fs"

definition offsetof :: "abi \<Rightarrow> (string \<times> ctype) list \<Rightarrow> string \<Rightarrow> nat option" where
  "offsetof c fs f = map_of (layout c 0 fs) f"

definition sizeof_struct :: "abi \<Rightarrow> (string \<times> ctype) list \<Rightarrow> nat" where
  "sizeof_struct c fs = align_up (struct_end c 0 fs) (fold max (map (alignof c \<circ> snd) fs) 1)"

definition TStringDesc :: "(string \<times> ctype) list" where
  "TStringDesc = [(''len'', NS), (''space'', NS), (''data'', Array NIM_CHAR 1)]"

definition TGenericSeq :: "(string \<times> ctype) list" where
  "TGenericSeq = [(''len'', NS), (''space'', NS)]"

definition GenericSeqSize :: "abi \<Rightarrow> nat" where
  "GenericSeqSize c = sizeof_struct c TGenericSeq"

text \<open>
  Reading an \<open>NS\<close> member: \<open>sizeof(NS)\<close> bytes in the platform's byte order, as a two's
  complement number.
\<close>

fun le_nat :: "byte list \<Rightarrow> nat" where
  "le_nat [] = 0"
| "le_nat (b # bs) = unat b + 256 * le_nat bs"

definition load_NS :: "abi \<Rightarrow> mem \<Rightarrow> nat \<Rightarrow> int" where
  "load_NS c m p =
     (let bs = load_bytes m p (sizeof_NS c);
          u = int (le_nat (if big_endian c then rev bs else bs))
      in if 2 * u \<ge> 2 ^ (8 * sizeof_NS c) then u - 2 ^ (8 * sizeof_NS c) else u)"

text \<open>\<open>p->f\<close> for an \<open>NS\<close> member \<open>f\<close> of the struct declared as \<open>fs\<close>.\<close>

definition read_field :: "abi \<Rightarrow> (string \<times> ctype) list \<Rightarrow> mem \<Rightarrow> nat \<Rightarrow> string \<Rightarrow> int option" where
  "read_field c fs m p f =
     (case offsetof c fs f of None \<Rightarrow> None | Some off \<Rightarrow> Some (load_NS c m (p + off)))"

text \<open>
  \<open>STRING_LITERAL(name, str, length)\<close> declares a constant struct with the members
  \<open>len\<close>, \<open>space\<close> and \<open>data[length + 1]\<close>, initialised with \<open>{length, length, str}\<close>.
  \<open>str\<close> is the text of the string literal, without the terminator C appends. The
  macro checks neither argument. A compiler refuses only an array of negative size
  (\<open>None\<close>); GNU C accepts the size 0, and cuts a text that has more characters than
  the array has elements. The text is copied, then the terminator if there is room for
  it, and what is left of the array is filled with zeros.
\<close>

record string_literal =
  len :: int
  space :: int
  data :: "byte list"

definition literal_struct :: "int \<Rightarrow> (string \<times> ctype) list" where
  "literal_struct length' = [(''len'', NS), (''space'', NS), (''data'', Array NIM_CHAR (nat (length' + 1)))]"

definition STRING_LITERAL :: "byte list \<Rightarrow> int \<Rightarrow> string_literal option" where
  "STRING_LITERAL str length' =
     (if length' + 1 < 0 then None
      else Some \<lparr>len = length', space = length',
                 data = take (nat (length' + 1)) (str @ replicate (nat (length' + 1)) 0)\<rparr>)"

text \<open>The bytes of a text, one per character.\<close>

definition cstr :: "string \<Rightarrow> byte list" where
  "cstr s = map of_char s"

text \<open>The header invariant of the specification: \<open>0 <= length <= capacity\<close>.\<close>

definition header_inv :: "int \<Rightarrow> int \<Rightarrow> bool" where
  "header_inv l s = (0 \<le> l \<and> l \<le> s)"


section \<open>IEEE 754 binary64 and binary32, as the bit patterns the code reinterprets\<close>

text \<open>
  \<open>NF64\<close> is \<open>double\<close>: a 64-bit pattern with a sign bit, 11 exponent bits and 52
  fraction bits; \<open>NF32\<close> is \<open>float\<close>: sign, 8 exponent bits, 23 fraction bits. The
  arithmetic is that of IEEE 754 in its default mode, round to nearest with ties to even,
  each operation rounded once to the format.
\<close>

type_synonym float64 = "64 word"

type_synonym float32 = "32 word"

type_synonym NS32 = "32 word"

definition f64_sign :: "float64 \<Rightarrow> bool" where
  "f64_sign w = (unat w div 2 ^ 63 = 1)"

definition f64_expo :: "float64 \<Rightarrow> nat" where
  "f64_expo w = (unat w div 2 ^ 52) mod 2048"

definition f64_frac :: "float64 \<Rightarrow> nat" where
  "f64_frac w = unat w mod 2 ^ 52"

definition f64_is_nan :: "float64 \<Rightarrow> bool" where
  "f64_is_nan w = (f64_expo w = 2047 \<and> f64_frac w \<noteq> 0)"

definition f64_is_inf :: "float64 \<Rightarrow> bool" where
  "f64_is_inf w = (f64_expo w = 2047 \<and> f64_frac w = 0)"

definition f64_finite :: "float64 \<Rightarrow> bool" where
  "f64_finite w = (f64_expo w < 2047)"

text \<open>
  A finite double is \<open>(-1)^sign * mant * 2^exp2\<close>: the significand as a natural number
  (with the hidden bit unless the exponent field is zero) and the power of two that one
  unit of it is worth.
\<close>

definition f64_mant :: "float64 \<Rightarrow> nat" where
  "f64_mant w = (if f64_expo w = 0 then f64_frac w else 2 ^ 52 + f64_frac w)"

definition f64_exp2 :: "float64 \<Rightarrow> int" where
  "f64_exp2 w = (if f64_expo w = 0 then - 1074 else int (f64_expo w) - 1075)"

definition f64_sig :: "float64 \<Rightarrow> int" where
  "f64_sig w = (if f64_sign w then - int (f64_mant w) else int (f64_mant w))"

definition f64_val :: "float64 \<Rightarrow> real" where
  "f64_val w = of_int (f64_sig w) * 2 powi f64_exp2 w"

definition f64_pack :: "bool \<Rightarrow> nat \<Rightarrow> nat \<Rightarrow> float64" where
  "f64_pack s ex fr = word_of_nat ((if s then 2 ^ 63 else 0) + ex * 2 ^ 52 + fr)"

definition f64_qnan :: float64 where
  "f64_qnan = f64_pack False 2047 (2 ^ 51)"

text \<open>
  \<open>rne_shift m k\<close> is \<open>m / 2^k\<close> rounded to the nearest integer, a tie to the even one.
\<close>

definition rne_shift :: "nat \<Rightarrow> nat \<Rightarrow> nat" where
  "rne_shift m k =
     (let q = m div 2 ^ k; r = m mod 2 ^ k
      in if 2 * r > 2 ^ k \<or> (2 * r = 2 ^ k \<and> odd q) then q + 1 else q)"

text \<open>
  \<open>f64_round s m e\<close> is the double nearest to \<open>(-1)^s * m * 2^e\<close>: the significand is
  brought to 53 bits (fewer below the normal range, where the unit stays \<open>2^-1074\<close>),
  rounding what is shifted out; a significand that rounds up to \<open>2^53\<close> moves to the
  next exponent; beyond the largest exponent the result is an infinity.
\<close>

definition f64_round :: "bool \<Rightarrow> nat \<Rightarrow> int \<Rightarrow> float64" where
  "f64_round s m e =
     (if m = 0 then f64_pack s 0 0
      else
        let t = max (e + int (floorlog 2 m) - 53) (- 1074);
            q = (if t \<le> e then m * 2 ^ nat (e - t) else rne_shift m (nat (t - e)));
            q' = (if q = 2 ^ 53 then 2 ^ 52 else q);
            t' = (if q = 2 ^ 53 then t + 1 else t)
        in if q' < 2 ^ 52 then f64_pack s 0 q'
           else if t' + 1075 \<ge> 2047 then f64_pack s 2047 0
           else f64_pack s (nat (t' + 1075)) (q' - 2 ^ 52))"

text \<open>
  Addition: a NaN operand or \<open>inf + (-inf)\<close> gives a NaN (which one is the platform's
  choice; the model gives the positive quiet NaN), an infinity absorbs a finite operand,
  and two finite operands are added exactly and rounded once. An exact zero sum is
  \<open>+0\<close> unless both operands are negative.
\<close>

definition f64_add :: "float64 \<Rightarrow> float64 \<Rightarrow> float64" where
  "f64_add a b =
     (if f64_is_nan a \<or> f64_is_nan b then f64_qnan
      else if f64_is_inf a then (if f64_is_inf b \<and> f64_sign a \<noteq> f64_sign b then f64_qnan else a)
      else if f64_is_inf b then b
      else
        let e = min (f64_exp2 a) (f64_exp2 b);
            n = f64_sig a * 2 ^ nat (f64_exp2 a - e) + f64_sig b * 2 ^ nat (f64_exp2 b - e)
        in if n = 0 then f64_pack (f64_sign a \<and> f64_sign b) 0 0
           else f64_round (n < 0) (nat \<bar>n\<bar>) e)"

text \<open>Multiplication, for the constant expression \<open>68719476736.0*1.5\<close> of line 311.\<close>

definition f64_mul :: "float64 \<Rightarrow> float64 \<Rightarrow> float64" where
  "f64_mul a b =
     (if f64_is_nan a \<or> f64_is_nan b then f64_qnan
      else if f64_is_inf a \<or> f64_is_inf b then
        (if f64_mant a = 0 \<and> f64_finite a \<or> f64_mant b = 0 \<and> f64_finite b then f64_qnan
         else f64_pack (f64_sign a \<noteq> f64_sign b) 2047 0)
      else f64_round (f64_sign a \<noteq> f64_sign b) (f64_mant a * f64_mant b) (f64_exp2 a + f64_exp2 b))"

text \<open>The two literals of line 311: \<open>68719476736.0\<close> is \<open>2^36\<close> and \<open>1.5\<close> is \<open>3 * 2^-1\<close>.\<close>

definition lit_68719476736 :: float64 where
  "lit_68719476736 = f64_round False 68719476736 0"

definition lit_1_5 :: float64 where
  "lit_1_5 = f64_round False 3 (- 1)"

text \<open>binary32, and the conversion \<open>(double)val\<close> of line 317.\<close>

definition f32_sign :: "float32 \<Rightarrow> bool" where
  "f32_sign w = (unat w div 2 ^ 31 = 1)"

definition f32_expo :: "float32 \<Rightarrow> nat" where
  "f32_expo w = (unat w div 2 ^ 23) mod 256"

definition f32_frac :: "float32 \<Rightarrow> nat" where
  "f32_frac w = unat w mod 2 ^ 23"

definition f32_finite :: "float32 \<Rightarrow> bool" where
  "f32_finite w = (f32_expo w < 255)"

definition f32_mant :: "float32 \<Rightarrow> nat" where
  "f32_mant w = (if f32_expo w = 0 then f32_frac w else 2 ^ 23 + f32_frac w)"

definition f32_exp2 :: "float32 \<Rightarrow> int" where
  "f32_exp2 w = (if f32_expo w = 0 then - 149 else int (f32_expo w) - 150)"

definition f32_val :: "float32 \<Rightarrow> real" where
  "f32_val w = (if f32_sign w then - 1 else 1) * real (f32_mant w) * 2 powi f32_exp2 w"

text \<open>
  An infinity stays an infinity, a NaN stays a NaN (quiet, with its payload moved to the
  top of the fraction), and a finite float is rounded to double like any other number.
\<close>

definition f64_of_f32 :: "float32 \<Rightarrow> float64" where
  "f64_of_f32 w =
     (if f32_expo w = 255 then
        (if f32_frac w = 0 then f64_pack (f32_sign w) 2047 0
         else f64_pack (f32_sign w) 2047 (2 ^ 51 + (f32_frac w mod 2 ^ 22) * 2 ^ 29))
      else f64_round (f32_sign w) (f32_mant w) (f32_exp2 w))"

section \<open>float64ToInt32 and float32ToInt32 (lines 304 to 318)\<close>

text \<open>
  \<open>val\<close> is a local \<open>double\<close>: eight bytes in the platform's byte order.
  \<open>((NS32*)&val)[i]\<close> reads the four bytes at offset \<open>4 * i\<close> as a 32-bit integer, in
  the same byte order.
\<close>

definition le_bytes64 :: "64 word \<Rightarrow> byte list" where
  "le_bytes64 w = map (\<lambda>i. ucast (drop_bit (8 * i) w)) [0..<8]"

definition object_bytes :: "abi \<Rightarrow> float64 \<Rightarrow> byte list" where
  "object_bytes c w = (if big_endian c then rev (le_bytes64 w) else le_bytes64 w)"

definition read_NS32 :: "abi \<Rightarrow> byte list \<Rightarrow> nat \<Rightarrow> NS32" where
  "read_NS32 c obj i =
     (let bs = take 4 (drop (4 * i) obj)
      in word_of_nat (le_nat (if big_endian c then rev bs else bs)))"

definition NIM_IMAN :: "target \<Rightarrow> nat" where
  "NIM_IMAN t = (if NIM_BIG_ENDIAN t then 1 else 0)"

text \<open>\<open>>>\<close> on a negative \<open>NS32\<close> keeps the sign, as every compiler the header names does.\<close>

definition float64ToInt32 :: "abi \<Rightarrow> target \<Rightarrow> float64 \<Rightarrow> NS32" where
  "float64ToInt32 c t val =
     (let val' = f64_add val (f64_mul lit_68719476736 lit_1_5)
      in signed_drop_bit 16 (read_NS32 c (object_bytes c val') (NIM_IMAN t)))"

definition float32ToInt32 :: "abi \<Rightarrow> target \<Rightarrow> float32 \<Rightarrow> NS32" where
  "float32ToInt32 c t val = float64ToInt32 c t (f64_of_f32 val)"

section \<open>What the specification compares the conversion with\<close>

text \<open>
  \<open>rne r\<close> is the integer nearest to \<open>r\<close>, a tie going to the even one: the rounding
  of the processor's conversion instruction in the default rounding mode.
\<close>

definition rne :: "real \<Rightarrow> int" where
  "rne r =
     (let f = \<lfloor>r\<rfloor>; d = r - of_int f
      in if d < 1 / 2 then f else if d > 1 / 2 then f + 1 else if even f then f else f + 1)"

text \<open>The native round-to-nearest-even conversion of a double to a 32-bit integer.\<close>

definition native_rint32 :: "float64 \<Rightarrow> NS32" where
  "native_rint32 x = word_of_int (rne (f64_val x))"

text \<open>
  The inputs for which the biased sum keeps the sign and the exponent of the bias, that
  is, lies in \<open>[2^36, 2^37)\<close>.
\<close>

definition bias_window :: "float64 \<Rightarrow> bool" where
  "bias_window x =
     (f64_finite x \<and>
      f64_expo (f64_add x (f64_mul lit_68719476736 lit_1_5)) = 1059 \<and>
      \<not> f64_sign (f64_add x (f64_mul lit_68719476736 lit_1_5)))"

text \<open>
  The steps of the conversion as the specification words them: add the bias
  \<open>1.5 * 2^36\<close> (the pattern \<open>0x4238000000000000\<close>), see the 64-bit pattern as two
  32-bit words in memory order, take the word at index 1 when \<open>NIM_BIG_ENDIAN\<close> is
  defined and at index 0 otherwise, and shift it right by 16 bits, keeping the sign.
\<close>

definition float64ToInt32_steps :: "abi \<Rightarrow> target \<Rightarrow> float64 \<Rightarrow> NS32" where
  "float64ToInt32_steps c t val =
     (let biased = f64_add val 0x4238000000000000;
          lo = ucast biased;
          hi = ucast (drop_bit 32 biased);
          halves = (if big_endian c then [hi, lo] else [lo, hi])
      in signed_drop_bit 16 (halves ! (if NIM_BIG_ENDIAN t then 1 else 0)))"

section \<open>Example platforms and memories\<close>

definition linux_gcc :: target where
  "linux_gcc = \<lparr>WIN32 = False, U_WIN32 = False, GNUC = True, LCC = False, POCC = False,
     BORLANDC = False, MSC_VER = False, DMC = False, WATCOMC = False, NIM_BIG_ENDIAN = False\<rparr>"

definition windows_msvc :: target where
  "windows_msvc = \<lparr>WIN32 = True, U_WIN32 = True, GNUC = False, LCC = False, POCC = False,
     BORLANDC = False, MSC_VER = True, DMC = False, WATCOMC = False, NIM_BIG_ENDIAN = False\<rparr>"

definition lp64_le :: abi where
  "lp64_le = \<lparr>big_endian = False, sizeof_NS = 8, alignof_NS = 8\<rparr>"

definition ilp32_be :: abi where
  "ilp32_be = \<lparr>big_endian = True, sizeof_NS = 4, alignof_NS = 4\<rparr>"

definition demo_mem :: mem where
  "demo_mem =
     store_bytes (store_bytes (store_bytes (\<lambda>a. 0) 0 [104, 101, 108, 108, 111, 0])
       16 [104, 101, 108, 108, 111, 0]) 32 [104, 117, 108, 108, 111, 0]"

section \<open>Properties of the calling-convention resolver\<close>

lemmas table_defs = use_macro_def callconv_defs_def windows_defs_def other_defs_def
  common_defs_def nimcall_defs_def fn_macro_def ptr_macro_def fn_body_def ptr_body_def

lemma use_fn_defined: "\<exists>f. use_macro (callconv_defs t) (conv_macro cc) [r, n] = Some f"
  by (cases cc) (simp_all add: table_defs)

lemma use_ptr_defined:
  "\<exists>p. use_macro (callconv_defs t) (conv_macro cc @ ''_PTR'') [r, n] = Some p"
  by (cases cc) (simp_all add: table_defs)

lemma linkage_windows:
  "WIN32 t \<or> U_WIN32 t \<Longrightarrow>
   resolve_linkage t d =
     Some [''__declspec'', ''('', (case d of Export \<Rightarrow> ''dllexport'' | Import \<Rightarrow> ''dllimport''), '')'']"
  by (cases d) (simp_all add: resolve_linkage_def table_defs)

lemma linkage_other:
  "\<not> WIN32 t \<Longrightarrow> \<not> U_WIN32 t \<Longrightarrow>
   resolve_linkage t d = Some (case d of Export \<Rightarrow> [] | Import \<Rightarrow> [''extern''])"
  by (cases d) (simp_all add: resolve_linkage_def table_defs)

lemma linkage_defined: "\<exists>l. resolve_linkage t d = Some l"
  by (cases "WIN32 t \<or> U_WIN32 t") (auto simp: linkage_windows linkage_other)

lemma five_fn:
  "\<not> WIN32 t \<Longrightarrow> \<not> U_WIN32 t \<Longrightarrow> cc \<in> {Cdecl, Stdcall, Syscall, Fastcall, Safecall} \<Longrightarrow>
   use_macro (callconv_defs t) (conv_macro cc) [r, n] = Some [r, n]"
  by (cases cc) (simp_all add: table_defs)

lemma five_ptr:
  "\<not> WIN32 t \<Longrightarrow> \<not> U_WIN32 t \<Longrightarrow> cc \<in> {Cdecl, Stdcall, Syscall, Fastcall, Safecall} \<Longrightarrow>
   use_macro (callconv_defs t) (conv_macro cc @ ''_PTR'') [r, n] = Some [r, ''('', ''*'', n, '')'']"
  by (cases cc) (simp_all add: table_defs)

text \<open>
  Claim C3. On every target and for each of the eight conventions, the resolver yields a
  spelling triple (function declaration, function pointer, linkage); it never fails to
  map. Outside the Windows branch the five named conventions (cdecl, stdcall, syscall,
  fastcall, safecall) all resolve to the one spelling without a modifier:
  \<open>rettype name\<close> and \<open>rettype (*name)\<close>.
\<close>

theorem resolve_total:
  "(\<exists>f p l. resolve t cc d r n = Some (f, p, l)) \<and>
   (\<not> WIN32 t \<and> \<not> U_WIN32 t \<and> cc \<in> {Cdecl, Stdcall, Syscall, Fastcall, Safecall} \<longrightarrow>
      resolve t cc d r n =
        Some ([r, n], [r, ''('', ''*'', n, '')''],
              case d of Export \<Rightarrow> [] | Import \<Rightarrow> [''extern'']))"
proof
  obtain f where f: "use_macro (callconv_defs t) (conv_macro cc) [r, n] = Some f"
    using use_fn_defined by blast
  obtain p where p: "use_macro (callconv_defs t) (conv_macro cc @ ''_PTR'') [r, n] = Some p"
    using use_ptr_defined by blast
  obtain l where l: "resolve_linkage t d = Some l"
    using linkage_defined by blast
  show "\<exists>f p l. resolve t cc d r n = Some (f, p, l)"
    by (simp add: resolve_def f p l)
  show "\<not> WIN32 t \<and> \<not> U_WIN32 t \<and> cc \<in> {Cdecl, Stdcall, Syscall, Fastcall, Safecall} \<longrightarrow>
      resolve t cc d r n =
        Some ([r, n], [r, ''('', ''*'', n, '')''],
              case d of Export \<Rightarrow> [] | Import \<Rightarrow> [''extern''])"
    by (simp add: resolve_def five_fn five_ptr linkage_other del: insert_iff)
qed

theorem resolve_total_witness:
  "resolve linux_gcc Stdcall Import ''int'' ''f'' =
     Some ([''int'', ''f''], [''int'', ''('', ''*'', ''f'', '')''], [''extern''])"
  using resolve_total [of linux_gcc Stdcall Import "''int''" "''f''"]
  by (simp add: linux_gcc_def)

text \<open>
  Claim C7. Outside the Windows branch the Import direction resolves to \<open>extern\<close> and
  the Export direction to the empty spelling; in the Windows branch they resolve to
  \<open>__declspec(dllimport)\<close> and \<open>__declspec(dllexport)\<close>.
\<close>

theorem linkage_spelling:
  "resolve_linkage t Import =
     Some (if WIN32 t \<or> U_WIN32 t then [''__declspec'', ''('', ''dllimport'', '')'']
           else [''extern'']) \<and>
   resolve_linkage t Export =
     Some (if WIN32 t \<or> U_WIN32 t then [''__declspec'', ''('', ''dllexport'', '')''] else [])"
  by (cases "WIN32 t \<or> U_WIN32 t") (auto simp: linkage_windows linkage_other)

theorem linkage_spelling_witness:
  "resolve_linkage linux_gcc Import = Some [''extern''] \<and>
   resolve_linkage linux_gcc Export = Some [] \<and>
   resolve_linkage windows_msvc Import = Some [''__declspec'', ''('', ''dllimport'', '')''] \<and>
   resolve_linkage windows_msvc Export = Some [''__declspec'', ''('', ''dllexport'', '')'']"
  using linkage_spelling [of linux_gcc] linkage_spelling [of windows_msvc]
  by (simp add: linux_gcc_def windows_msvc_def)

section \<open>Properties of equalMem, zeroMem and the buffer structs\<close>


lemma memcmp_zero_iff: "memcmp m a b n = 0 \<longleftrightarrow> (\<forall>i<n. m (a + i) = m (b + i))"
proof (induction n arbitrary: a b)
  case 0
  then show ?case by simp
next
  case (Suc n)
  show ?case
  proof (cases "m a = m b")
    case True
    have "(\<forall>i<Suc n. m (a + i) = m (b + i)) \<longleftrightarrow> (\<forall>i<n. m (Suc a + i) = m (Suc b + i))"
      using True by (auto simp: less_Suc_eq_0_disj)
    then show ?thesis using True Suc.IH [of "Suc a" "Suc b"] by simp
  next
    case False
    then have "uint (m a) \<noteq> uint (m b)" by (simp add: word_uint_eq_iff)
    moreover have "\<not> (\<forall>i<Suc n. m (a + i) = m (b + i))" using False by force
    ultimately show ?thesis using False by simp
  qed
qed

lemma load_bytes_eq_iff: "load_bytes m a n = load_bytes m b n \<longleftrightarrow> (\<forall>i<n. m (a + i) = m (b + i))"
  by (auto simp: load_bytes_def)

lemma equalMem_regions: "equalMem m a b n \<longleftrightarrow> load_bytes m a n = load_bytes m b n"
  by (simp add: equalMem_def memcmp_zero_iff load_bytes_eq_iff)

lemma load_bytes_take: "k \<le> n \<Longrightarrow> load_bytes m a k = take k (load_bytes m a n)"
  by (simp add: load_bytes_def take_map min_def)

lemma hello_lit: "STRING_LITERAL (cstr ''hello'') 5 = Some \<lparr>len = 5, space = 5, data = [104, 101, 108, 108, 111, 0]\<rparr>"
  by (simp add: STRING_LITERAL_def cstr_def)

lemma hullo_lit: "STRING_LITERAL (cstr ''hullo'') 5 = Some \<lparr>len = 5, space = 5, data = [104, 117, 108, 108, 111, 0]\<rparr>"
  by (simp add: STRING_LITERAL_def cstr_def)

text \<open>
  Claim C4. \<open>equalMem(a, b, n)\<close> is true exactly when the \<open>n\<close> bytes at \<open>a\<close> and
  the \<open>n\<close> bytes at \<open>b\<close> are the same, and it is true for \<open>n = 0\<close>. For the
  literal \<open>"hello"\<close> of length 5 whose data lies at \<open>p1\<close>, it is true against the
  data of a second such literal at \<open>p2\<close> and false against the data of \<open>"hullo"\<close>.
\<close>

theorem equalMem_spec:
  "(equalMem m a b n \<longleftrightarrow> load_bytes m a n = load_bytes m b n) \<and>
   equalMem m a b 0 \<and>
   (STRING_LITERAL (cstr ''hello'') 5 = Some l1 \<and> load_bytes m p1 6 = data l1 \<and>
    STRING_LITERAL (cstr ''hello'') 5 = Some l2 \<and> load_bytes m p2 6 = data l2 \<and>
    STRING_LITERAL (cstr ''hullo'') 5 = Some l3 \<and> load_bytes m p3 6 = data l3
    \<longrightarrow> equalMem m p1 p2 5 \<and> \<not> equalMem m p1 p3 5)"
proof (intro conjI impI)
  show "equalMem m a b n \<longleftrightarrow> load_bytes m a n = load_bytes m b n"
    by (rule equalMem_regions)
  show "equalMem m a b 0"
    by (simp add: equalMem_def)
next
  assume h: "STRING_LITERAL (cstr ''hello'') 5 = Some l1 \<and> load_bytes m p1 6 = data l1 \<and>
    STRING_LITERAL (cstr ''hello'') 5 = Some l2 \<and> load_bytes m p2 6 = data l2 \<and>
    STRING_LITERAL (cstr ''hullo'') 5 = Some l3 \<and> load_bytes m p3 6 = data l3"
  have t: "load_bytes m p 5 = take 5 (load_bytes m p 6)" for p
    by (rule load_bytes_take) simp
  from h have d1: "load_bytes m p1 6 = [104, 101, 108, 108, 111, 0]" 
    and d2: "load_bytes m p2 6 = [104, 101, 108, 108, 111, 0]"
    and d3: "load_bytes m p3 6 = [104, 117, 108, 108, 111, 0]"
    by (auto simp: hello_lit hullo_lit)
  show "equalMem m p1 p2 5" by (simp add: equalMem_regions t d1 d2)
  show "\<not> equalMem m p1 p3 5" by (simp add: equalMem_regions t d1 d3)
qed

lemma upt6: "[0..<6] = [0, 1, 2, 3, 4, 5]"
  by (simp add: upt_rec)

lemma demo_mem_regions:
  "load_bytes demo_mem 0 6 = [104, 101, 108, 108, 111, 0]"
  "load_bytes demo_mem 16 6 = [104, 101, 108, 108, 111, 0]"
  "load_bytes demo_mem 32 6 = [104, 117, 108, 108, 111, 0]"
  by (simp_all add: load_bytes_def demo_mem_def store_bytes_def upt6)

theorem equalMem_spec_witness:
  "equalMem demo_mem 0 16 5 \<and> \<not> equalMem demo_mem 0 32 5"
  using equalMem_spec [of demo_mem 0 0 0 "\<lparr>len = 5, space = 5, data = [104, 101, 108, 108, 111, 0]\<rparr>" 0
     "\<lparr>len = 5, space = 5, data = [104, 101, 108, 108, 111, 0]\<rparr>" 16
     "\<lparr>len = 5, space = 5, data = [104, 117, 108, 108, 111, 0]\<rparr>" 32]
  by (simp add: hello_lit hullo_lit demo_mem_regions)

lemma literal_data_length: "STRING_LITERAL str n = Some l \<Longrightarrow> length (data l) = nat (n + 1)"
  by (auto simp: STRING_LITERAL_def split: if_splits)

lemma literal_nul: "STRING_LITERAL str n = Some l \<Longrightarrow> int (length str) \<le> n \<Longrightarrow> data l ! nat n = 0"
  by (auto simp: STRING_LITERAL_def nth_append split: if_splits)

lemma literal_no_nul: "STRING_LITERAL (cstr ''ab'') 1 = Some \<lparr>len = 1, space = 1, data = [97, 98]\<rparr>"
  by (simp add: STRING_LITERAL_def cstr_def)

lemma literal_header: "STRING_LITERAL str n = Some l \<Longrightarrow> len l = n \<and> space l = n"
  by (auto simp: STRING_LITERAL_def split: if_splits)

lemma literal_negative:
  "STRING_LITERAL (cstr []) (- 1) = Some \<lparr>len = - 1, space = - 1, data = []\<rparr>"
  by (simp add: STRING_LITERAL_def cstr_def)


lemma align_up_ge: "0 < al \<Longrightarrow> off \<le> align_up off al"
proof -
  assume al: "0 < al"
  have "off + al - 1 < ((off + al - 1) div al) * al + al"
    using al by (metis div_mult_mod_eq add_less_cancel_left mod_less_divisor mult.commute)
  then show ?thesis using al by (simp add: align_up_def)
qed

lemma align_up_0: "align_up 0 al = 0"
  by (cases "al = 0") (simp_all add: align_up_def)

lemma offsets_GenericSeq:
  "offsetof c TGenericSeq ''len'' = Some 0"
  "offsetof c TGenericSeq ''space'' = Some (align_up (sizeof_NS c) (alignof_NS c))"
  by (simp_all add: offsetof_def TGenericSeq_def Let_def align_up_0)

lemma offsets_StringDesc:
  "offsetof c TStringDesc ''len'' = Some 0"
  "offsetof c TStringDesc ''space'' = Some (align_up (sizeof_NS c) (alignof_NS c))"
  by (simp_all add: offsetof_def TStringDesc_def Let_def align_up_0)

lemma offsets_literal:
  "offsetof c (literal_struct n) ''len'' = Some 0"
  "offsetof c (literal_struct n) ''space'' = Some (align_up (sizeof_NS c) (alignof_NS c))"
  by (simp_all add: offsetof_def literal_struct_def Let_def align_up_0)

lemma GenericSeqSize_ge:
  assumes "0 < alignof_NS c"
  shows "align_up (sizeof_NS c) (alignof_NS c) + sizeof_NS c \<le> GenericSeqSize c"
proof -
  have "0 < max (alignof_NS c) (max (alignof_NS c) 1)" by simp
  then show ?thesis
    by (simp add: GenericSeqSize_def sizeof_struct_def TGenericSeq_def align_up_0 align_up_ge)
qed

lemma le_nat_zeros: "le_nat (replicate n 0) = 0"
  by (induction n) simp_all

lemma load_bytes_memset:
  "s \<le> p \<Longrightarrow> p + k \<le> s + n \<Longrightarrow> load_bytes (memset m s v n) p k = replicate k (word_of_int v)"
  by (auto simp: load_bytes_def memset_def map_replicate_const [symmetric] simp del: map_replicate_const replicate_eq_replicate intro!: nth_equalityI)

lemma load_NS_zeroMem:
  assumes "s \<le> p" "p + sizeof_NS c \<le> s + n"
  shows "load_NS c (zeroMem m s n) p = 0"
  using assms by (simp add: load_NS_def zeroMem_def load_bytes_memset le_nat_zeros Let_def)

lemma header_zeroMem:
  assumes "0 < alignof_NS c"
  shows "read_field c TGenericSeq (zeroMem m p (GenericSeqSize c)) p ''len'' = Some 0"
    and "read_field c TGenericSeq (zeroMem m p (GenericSeqSize c)) p ''space'' = Some 0"
proof -
  have ge: "align_up (sizeof_NS c) (alignof_NS c) + sizeof_NS c \<le> GenericSeqSize c"
    using assms by (rule GenericSeqSize_ge)
  show "read_field c TGenericSeq (zeroMem m p (GenericSeqSize c)) p ''len'' = Some 0"
    using ge by (simp add: read_field_def offsets_GenericSeq load_NS_zeroMem)
  show "read_field c TGenericSeq (zeroMem m p (GenericSeqSize c)) p ''space'' = Some 0"
    using ge by (simp add: read_field_def offsets_GenericSeq load_NS_zeroMem)
qed

lemma shared_header: "take 2 TStringDesc = TGenericSeq"
  by (simp add: TStringDesc_def TGenericSeq_def)

text \<open>
  Claim C5, as amended. After \<open>zeroMem\<close> over a header (a region of
  \<open>GenericSeqSize\<close> bytes) both fields read 0 and the header invariant
  \<open>0 <= length <= capacity\<close> holds. \<open>STRING_LITERAL\<close> always gives a literal whose
  length field equals its capacity field, and the invariant holds for it whenever the
  \<open>length\<close> argument is not negative.
\<close>

theorem header_invariant:
  "(0 < alignof_NS c \<longrightarrow>
      read_field c TGenericSeq (zeroMem m p (GenericSeqSize c)) p ''len'' = Some 0 \<and>
      read_field c TGenericSeq (zeroMem m p (GenericSeqSize c)) p ''space'' = Some 0 \<and>
      header_inv 0 0) \<and>
   (STRING_LITERAL str n = Some l \<longrightarrow>
      len l = space l \<and> (0 \<le> n \<longrightarrow> header_inv (len l) (space l)))"
proof (intro conjI impI)
  assume "0 < alignof_NS c"
  then show "read_field c TGenericSeq (zeroMem m p (GenericSeqSize c)) p ''len'' = Some 0"
    and "read_field c TGenericSeq (zeroMem m p (GenericSeqSize c)) p ''space'' = Some 0"
    by (rule header_zeroMem)+
  show "header_inv 0 0" by (simp add: header_inv_def)
next
  assume "STRING_LITERAL str n = Some l"
  then have h: "len l = n \<and> space l = n" by (rule literal_header)
  then show "len l = space l" by simp
  assume "0 \<le> n"
  with h show "header_inv (len l) (space l)" by (simp add: header_inv_def)
qed

theorem header_invariant_witness:
  "read_field lp64_le TGenericSeq (zeroMem (\<lambda>a. 255) 64 (GenericSeqSize lp64_le)) 64 ''len'' = Some 0 \<and>
   read_field lp64_le TGenericSeq (zeroMem (\<lambda>a. 255) 64 (GenericSeqSize lp64_le)) 64 ''space'' = Some 0 \<and>
   header_inv 5 5"
  using header_invariant [of lp64_le "\<lambda>a. 255" 64 "cstr ''hello''" 5
      "\<lparr>len = 5, space = 5, data = [104, 101, 108, 108, 111, 0]\<rparr>"]
  by (simp add: hello_lit lp64_le_def)

text \<open>
  The claim as first stated, for every use of the macro, fails: nothing stops a negative
  \<open>length\<close>. \<open>STRING_LITERAL(x, "", -1)\<close> declares \<open>data[0]\<close>, which GNU C accepts,
  and sets both fields to -1.
\<close>

theorem header_invariant_counterexample:
  "STRING_LITERAL (cstr []) (- 1) = Some \<lparr>len = - 1, space = - 1, data = []\<rparr> \<and>
   \<not> header_inv (len \<lparr>len = - 1, space = - 1, data = []\<rparr>)
         (space \<lparr>len = - 1, space = - 1, data = []\<rparr>)"
  by (simp add: literal_negative header_inv_def)

text \<open>
  Claim C6. \<open>TStringDesc\<close> and \<open>TGenericSeq\<close> begin with the same two members,
  \<open>len\<close> and \<open>space\<close>, both of type \<open>NS\<close> and in this order; on every platform the
  two members have the same offsets in both structs, so that reading a header member
  through either declaration gives the same value.
\<close>

theorem shared_header_layout:
  "take 2 TStringDesc = TGenericSeq \<and>
   TGenericSeq = [(''len'', NS), (''space'', NS)] \<and>
   offsetof c TStringDesc ''len'' = offsetof c TGenericSeq ''len'' \<and>
   offsetof c TStringDesc ''space'' = offsetof c TGenericSeq ''space'' \<and>
   offsetof c TGenericSeq ''len'' \<noteq> None \<and>
   offsetof c TGenericSeq ''space'' \<noteq> None \<and>
   read_field c TStringDesc m p ''len'' = read_field c TGenericSeq m p ''len'' \<and>
   read_field c TStringDesc m p ''space'' = read_field c TGenericSeq m p ''space''"
  by (simp add: shared_header read_field_def offsets_GenericSeq offsets_StringDesc)
     (simp add: TGenericSeq_def)

text \<open>
  Claim C10, as amended. A literal built by \<open>STRING_LITERAL(name, str, length)\<close> has
  \<open>length + 1\<close> character slots, and the slot at index \<open>length\<close> holds the NUL
  character whenever \<open>str\<close> has at most \<open>length\<close> characters.
\<close>

theorem literal_terminated:
  "STRING_LITERAL str n = Some l \<Longrightarrow>
     length (data l) = nat (n + 1) \<and>
     map_of (literal_struct n) ''data'' = Some (Array NIM_CHAR (nat (n + 1))) \<and>
     (int (length str) \<le> n \<longrightarrow> data l ! nat n = 0)"
  by (simp add: literal_data_length literal_nul literal_struct_def)

theorem literal_terminated_witness:
  "length [104, 101, 108, 108, 111, 0 :: byte] = 6 \<and> [104, 101, 108, 108, 111, 0 :: byte] ! 5 = 0"
  using literal_terminated [of "cstr ''hello''" 5
      "\<lparr>len = 5, space = 5, data = [104, 101, 108, 108, 111, 0]\<rparr>"]
  by (simp add: hello_lit cstr_def)

text \<open>
  The claim as first stated, for every \<open>str\<close>, fails: C accepts a text of
  \<open>length + 1\<close> characters for an array of \<open>length + 1\<close> elements and then stores no
  terminator. \<open>STRING_LITERAL(x, "ab", 1)\<close> has \<open>data = {'a', 'b'}\<close>.
\<close>

theorem literal_terminated_counterexample:
  "STRING_LITERAL (cstr ''ab'') 1 = Some \<lparr>len = 1, space = 1, data = [97, 98]\<rparr> \<and>
   data \<lparr>len = 1, space = 1, data = [97, 98]\<rparr> ! nat 1 \<noteq> 0"
  by (simp add: literal_no_nul)

section \<open>Properties of the floating-point model\<close>

lemma floorlog2_eq:
  assumes "0 < n" "2 ^ (n - 1) \<le> m" "m < 2 ^ n"
  shows "floorlog 2 m = n"
proof (rule antisym)
  show "floorlog 2 m \<le> n" using assms by (simp add: floorlog_le_iff)
  show "n \<le> floorlog 2 m" using assms by (intro floorlog_geI) simp_all
qed

lemma fields_nat:
  fixes c d :: nat
  assumes "fr < c" "ex < d"
  shows "((sb * d + ex) * c + fr) div c mod d = ex"
    and "((sb * d + ex) * c + fr) mod c = fr"
    and "((sb * d + ex) * c + fr) div (c * d) = sb"
  using assms by (simp_all add: div_mult2_eq)

lemma unat_f64_pack:
  assumes "ex < 2048" "fr < 2 ^ 52"
  shows "unat (f64_pack s ex fr) = ((if s then 1 else 0) * 2048 + ex) * 2 ^ 52 + fr"
proof -
  have "ex * 2 ^ 52 + fr < 2 ^ 63" using assms by simp
  then have "(if s then 2 ^ 63 else 0) + ex * 2 ^ 52 + fr < (2::nat) ^ 64" by simp
  then have "unat (f64_pack s ex fr) = (if s then 2 ^ 63 else 0) + ex * 2 ^ 52 + fr"
    by (simp add: f64_pack_def unat_of_nat del: of_nat_add of_nat_mult)
  then show ?thesis by simp
qed

lemma f64_expo_pack: "ex < 2048 \<Longrightarrow> fr < 2 ^ 52 \<Longrightarrow> f64_expo (f64_pack s ex fr) = ex"
  unfolding f64_expo_def by (simp only: unat_f64_pack fields_nat)

lemma f64_frac_pack: "ex < 2048 \<Longrightarrow> fr < 2 ^ 52 \<Longrightarrow> f64_frac (f64_pack s ex fr) = fr"
  unfolding f64_frac_def by (simp only: unat_f64_pack fields_nat)

lemma f64_sign_pack: "ex < 2048 \<Longrightarrow> fr < 2 ^ 52 \<Longrightarrow> f64_sign (f64_pack s ex fr) = s"
proof -
  assume a: "ex < 2048" "fr < 2 ^ 52"
  have "(2::nat) ^ 63 = 2 ^ 52 * 2048" by simp
  then have "unat (f64_pack s ex fr) div 2 ^ 63 = (if s then 1 else 0)"
    using a by (simp only: unat_f64_pack fields_nat)
  then show ?thesis by (simp add: f64_sign_def)
qed

lemma f64_round_normal:
  assumes m: "0 < m" and L: "floorlog 2 m \<le> 53"
    and lo: "- 1074 \<le> e + int (floorlog 2 m) - 53" and hi: "e + int (floorlog 2 m) - 53 \<le> 971"
  shows "f64_round s m e =
    f64_pack s (nat (e + int (floorlog 2 m) - 53 + 1075)) (m * 2 ^ (53 - floorlog 2 m) - 2 ^ 52)"
proof -
  define l where "l = floorlog 2 m"
  define t where "t = e + int l - 53"
  have l0: "0 < l" using m by (simp add: l_def floorlog_def)
  have b: "2 ^ (l - 1) \<le> m" "m < 2 ^ l"
    using floorlog_bounds [of m 2] m by (simp_all add: l_def)
  have nat_et: "nat (e - t) = 53 - l" using L by (simp add: t_def l_def)
  have "(2::nat) ^ 52 = 2 ^ (l - 1) * 2 ^ (53 - l)"
    using l0 L unfolding l_def [symmetric] by (simp flip: power_add)
  also have "\<dots> \<le> m * 2 ^ (53 - l)"
    by (rule mult_le_mono1) (rule b(1))
  finally have q_lo: "2 ^ 52 \<le> m * 2 ^ (53 - l)" .
  have "m * 2 ^ (53 - l) < 2 ^ l * 2 ^ (53 - l)"
    using b(2) by simp
  also have "(2::nat) ^ l * 2 ^ (53 - l) = 2 ^ 53"
    using L unfolding l_def [symmetric] by (simp flip: power_add)
  finally have q_hi: "m * 2 ^ (53 - l) < 2 ^ 53" .
  have mx: "max t (- 1074) = t" using lo by (simp add: t_def l_def)
  have te: "t \<le> e" using L by (simp add: t_def l_def)
  have t_hi: "\<not> 2047 \<le> t + 1075" using hi by (simp add: t_def l_def)
  have "f64_round s m e = f64_pack s (nat (t + 1075)) (m * 2 ^ (53 - l) - 2 ^ 52)"
    using m q_lo q_hi t_hi unfolding f64_round_def l_def [symmetric] t_def [symmetric] mx Let_def
    by (simp only: te nat_et if_True) (simp del: power_numeral)
  then show ?thesis by (simp add: t_def l_def)
qed

lemma f64_round_shift:
  assumes m: "0 < m" and L: "53 < floorlog 2 m"
    and lo: "- 1074 \<le> e + int (floorlog 2 m) - 53" and hi: "e + int (floorlog 2 m) - 53 \<le> 971"
    and q: "2 ^ 52 \<le> rne_shift m (floorlog 2 m - 53)" "rne_shift m (floorlog 2 m - 53) < 2 ^ 53"
  shows "f64_round s m e =
    f64_pack s (nat (e + int (floorlog 2 m) - 53 + 1075)) (rne_shift m (floorlog 2 m - 53) - 2 ^ 52)"
proof -
  define l where "l = floorlog 2 m"
  define t where "t = e + int l - 53"
  have nat_te: "nat (t - e) = l - 53" using L by (simp add: t_def l_def)
  have mx: "max t (- 1074) = t" using lo by (simp add: t_def l_def)
  have te: "\<not> t \<le> e" using L by (simp add: t_def l_def)
  have t_hi: "\<not> 2047 \<le> t + 1075" using hi by (simp add: t_def l_def)
  have "f64_round s m e = f64_pack s (nat (t + 1075)) (rne_shift m (l - 53) - 2 ^ 52)"
    using m q t_hi unfolding f64_round_def l_def [symmetric] t_def [symmetric] mx Let_def
    by (simp only: te nat_te if_False) (simp del: power_numeral)
  then show ?thesis by (simp add: t_def l_def)
qed

lemma f64_decode_pack:
  assumes "0 < ex" "ex < 2047" "fr < 2 ^ 52"
  shows "f64_finite (f64_pack s ex fr)"
    and "f64_mant (f64_pack s ex fr) = 2 ^ 52 + fr"
    and "f64_exp2 (f64_pack s ex fr) = int ex - 1075"
    and "f64_sig (f64_pack s ex fr) = (if s then - int (2 ^ 52 + fr) else int (2 ^ 52 + fr))"
  using assms
  by (simp_all add: f64_finite_def f64_mant_def f64_exp2_def f64_sig_def f64_expo_pack f64_frac_pack f64_sign_pack del: power_numeral)

lemma rne_of_int [simp]: "rne (of_int k) = k"
  by (simp add: rne_def)

lemma rne_add_even: "even a \<Longrightarrow> rne (of_int a + r) = a + rne r"
  by (simp add: rne_def Let_def)

lemma rne_bounds: "\<lfloor>r\<rfloor> \<le> rne r" "rne r \<le> \<lfloor>r\<rfloor> + 1"
  by (simp_all add: rne_def Let_def)

lemma rne_mono:
  assumes "r \<le> r'"
  shows "rne r \<le> rne r'"
proof (cases "\<lfloor>r\<rfloor> = \<lfloor>r'\<rfloor>")
  case True
  then show ?thesis using assms by (simp add: rne_def Let_def)
next
  case False
  then have "\<lfloor>r\<rfloor> + 1 \<le> \<lfloor>r'\<rfloor>" using floor_mono [OF assms] by simp
  then show ?thesis using rne_bounds(2) [of r] rne_bounds(1) [of r'] by linarith
qed

lemma rne_shift_eq: "int (rne_shift m k) = rne (real m / 2 ^ k)"
proof -
  have fl: "\<lfloor>real m / 2 ^ k\<rfloor> = int (m div 2 ^ k)"
    using floor_divide_of_nat_eq [of m "2 ^ k"] by simp
  have "real m = real (2 ^ k * (m div 2 ^ k) + m mod 2 ^ k)"
    by (simp only: mult_div_mod_eq)
  then have "real m = 2 ^ k * real (m div 2 ^ k) + real (m mod 2 ^ k)"
    by (simp only: of_nat_add of_nat_mult of_nat_power of_nat_numeral)
  then have fr: "real m / 2 ^ k - real (m div 2 ^ k) = real (m mod 2 ^ k) / 2 ^ k"
    by (simp add: field_simps)
  have c1: "real (m mod 2 ^ k) / 2 ^ k < 1 / 2 \<longleftrightarrow> 2 * (m mod 2 ^ k) < 2 ^ k"
  proof -
    have "real (m mod 2 ^ k) / 2 ^ k < 1 / 2 \<longleftrightarrow> 2 * real (m mod 2 ^ k) < 2 ^ k"
      by (simp add: field_simps)
    also have "\<dots> \<longleftrightarrow> real (2 * (m mod 2 ^ k)) < real (2 ^ k)" by simp
    also have "\<dots> \<longleftrightarrow> 2 * (m mod 2 ^ k) < 2 ^ k" by (rule of_nat_less_iff)
    finally show ?thesis .
  qed
  have c2: "real (m mod 2 ^ k) / 2 ^ k > 1 / 2 \<longleftrightarrow> 2 * (m mod 2 ^ k) > 2 ^ k"
  proof -
    have "real (m mod 2 ^ k) / 2 ^ k > 1 / 2 \<longleftrightarrow> 2 * real (m mod 2 ^ k) > 2 ^ k"
      by (simp add: field_simps)
    also have "\<dots> \<longleftrightarrow> real (2 * (m mod 2 ^ k)) > real (2 ^ k)" by simp
    also have "\<dots> \<longleftrightarrow> 2 * (m mod 2 ^ k) > 2 ^ k" by (rule of_nat_less_iff)
    finally show ?thesis .
  qed
  show ?thesis
    unfolding rne_def rne_shift_def Let_def fl of_int_of_nat_eq fr c1 c2
    by auto
qed

lemma mod_four_digits:
  fixes n a :: nat
  shows "n mod (a * (a * (a * a))) =
    n mod a + a * (n div a mod a + a * (n div (a * a) mod a + a * (n div (a * (a * a)) mod a)))"
  by (simp add: mod_mult2_eq div_mult2_eq)

lemma le_nat4:
  fixes v :: "64 word"
  shows "le_nat [ucast v, ucast (drop_bit 8 v), ucast (drop_bit 16 v), ucast (drop_bit 24 v)]
     = unat v mod 2 ^ 32"
proof -
  define n where "n = unat v"
  have a: "unat (ucast x :: byte) = unat x mod 256" for x :: "64 word"
    by (simp add: unsigned_ucast_eq take_bit_eq_mod)
  have u: "unat (ucast (drop_bit k v) :: byte) = n div 2 ^ k mod 256" for k
    unfolding a unat_drop_bit_eq by (simp add: drop_bit_eq_div n_def)
  have u0: "unat (ucast v :: byte) = n mod 256"
    using u [of 0] by simp
  have "n mod 2 ^ 32 =
    n mod 256 + 256 * (n div 256 mod 256 + 256 * (n div 65536 mod 256 + 256 * (n div 16777216 mod 256)))"
    using mod_four_digits [of n 256] by simp
  then show ?thesis
    unfolding le_nat.simps u u0 n_def [symmetric] by simp
qed

lemma word_of_le_nat4:
  fixes v :: "64 word"
  shows "word_of_nat (le_nat [ucast v, ucast (drop_bit 8 v), ucast (drop_bit 16 v), ucast (drop_bit 24 v)])
     = (ucast v :: 32 word)"
proof -
  have "unat (ucast v :: 32 word) = unat v mod 2 ^ 32"
    by (simp add: unsigned_ucast_eq take_bit_eq_mod)
  then have "(ucast v :: 32 word) = word_of_nat (unat v mod 2 ^ 32)"
    by (metis of_nat_unat ucast_id)
  then show ?thesis by (simp only: le_nat4)
qed

lemma upt8: "[0..<8] = [0, 1, 2, 3, 4, 5, 6, 7]"
  by (simp add: upt_rec)

lemma read_NS32_object:
  "read_NS32 c (object_bytes c w) 0 = (if big_endian c then ucast (drop_bit 32 w) else ucast w)"
  "read_NS32 c (object_bytes c w) 1 = (if big_endian c then ucast w else ucast (drop_bit 32 w))"
  using word_of_le_nat4 [of w] word_of_le_nat4 [of "drop_bit 32 w"]
  by (simp_all add: read_NS32_def object_bytes_def le_bytes64_def upt8 Let_def)

lemma lit_68719476736_eq: "lit_68719476736 = f64_pack False 1059 0"
proof -
  have fl: "floorlog 2 68719476736 = 37" by (rule floorlog2_eq) simp_all
  show ?thesis
    unfolding lit_68719476736_def using f64_round_normal [of 68719476736 0 False]
    by (simp add: fl)
qed

lemma lit_1_5_eq: "lit_1_5 = f64_pack False 1023 (2 ^ 51)"
proof -
  have fl: "floorlog 2 3 = 2" by (rule floorlog2_eq) simp_all
  show ?thesis
    unfolding lit_1_5_def using f64_round_normal [of 3 "- 1" False]
    by (simp add: fl)
qed

lemma magic_eq: "f64_mul lit_68719476736 lit_1_5 = f64_pack False 1059 (2 ^ 51)"
proof -
  have fl: "floorlog 2 30423614405477505635920876929024 = 105"
    by (rule floorlog2_eq) simp_all
  have sh: "rne_shift 30423614405477505635920876929024 52 = 6755399441055744"
    by (simp add: rne_shift_def)
  have r: "f64_round False 30423614405477505635920876929024 (- 68) = f64_pack False 1059 (2 ^ 51)"
    using f64_round_shift [of 30423614405477505635920876929024 "- 68" False]
    by (simp add: fl sh)
  have a: "f64_expo (f64_pack False 1059 0) = 1059" "f64_frac (f64_pack False 1059 0) = 0"
    "f64_sign (f64_pack False 1059 0) = False"
    by (simp_all add: f64_expo_pack f64_frac_pack f64_sign_pack)
  have b: "f64_expo (f64_pack False 1023 (2 ^ 51)) = 1023"
    "f64_frac (f64_pack False 1023 (2 ^ 51)) = 2 ^ 51"
    "f64_sign (f64_pack False 1023 (2 ^ 51)) = False"
    by (simp_all add: f64_expo_pack f64_frac_pack f64_sign_pack)
  show ?thesis
    unfolding lit_68719476736_eq lit_1_5_eq f64_mul_def f64_is_nan_def f64_is_inf_def
      f64_mant_def f64_exp2_def f64_finite_def a b
    using r by simp
qed

lemma powi_scale:
  "(2::real) powi e * 2 ^ 16 = (if - 16 \<le> e then 2 ^ nat (e + 16) else 1 / 2 ^ nat (- 16 - e))"
proof -
  have "(2::real) powi e * 2 ^ 16 = 2 powi e * 2 powi 16" by simp
  also have "\<dots> = 2 powi (e + 16)" by (simp add: power_int_add)
  also have "\<dots> = (if - 16 \<le> e then 2 ^ nat (e + 16) else 1 / 2 ^ nat (- 16 - e))"
  proof (cases "- 16 \<le> e")
    case True
    then show ?thesis by (simp add: power_int_def)
  next
    case False
    then have "nat (- (e + 16)) = nat (- 16 - e)" by simp
    then show ?thesis using False
      by (simp add: power_int_def power_one_over [symmetric] inverse_eq_divide del: power_one_over)
  qed
  finally show ?thesis .
qed

lemma f64_sig_bound: "\<bar>f64_sig x\<bar> < 2 ^ 53"
proof -
  have "f64_frac x < 2 ^ 52" by (simp add: f64_frac_def)
  then have "f64_mant x < 2 ^ 53" by (simp add: f64_mant_def)
  then show ?thesis by (simp add: f64_sig_def)
qed

lemma f64_exp2_ge: "- 1074 \<le> f64_exp2 x"
  by (simp add: f64_exp2_def)

lemma bias_fields:
  "f64_expo (f64_pack False 1059 (2 ^ 51)) = 1059"
  "f64_frac (f64_pack False 1059 (2 ^ 51)) = 2 ^ 51"
  "f64_sign (f64_pack False 1059 (2 ^ 51)) = False"
  by (simp_all add: f64_expo_pack f64_frac_pack f64_sign_pack)

lemma bias_decode:
  "\<not> f64_is_nan (f64_pack False 1059 (2 ^ 51))"
  "\<not> f64_is_inf (f64_pack False 1059 (2 ^ 51))"
  "f64_exp2 (f64_pack False 1059 (2 ^ 51)) = - 16"
  "f64_sig (f64_pack False 1059 (2 ^ 51)) = 3 * 2 ^ 51"
  unfolding f64_is_nan_def f64_is_inf_def f64_exp2_def f64_sig_def f64_mant_def bias_fields
  by simp_all

lemma f64_finite_not_special: "f64_finite x \<Longrightarrow> \<not> f64_is_nan x \<and> \<not> f64_is_inf x"
  by (simp add: f64_finite_def f64_is_nan_def f64_is_inf_def)

lemma rne_abs_le:
  assumes "\<bar>r\<bar> \<le> of_int b"
  shows "\<bar>rne r\<bar> \<le> b"
proof -
  have "rne r \<le> rne (of_int b)" using assms by (intro rne_mono) linarith
  moreover have "rne (of_int (- b)) \<le> rne r" using assms by (intro rne_mono) simp
  ultimately show ?thesis unfolding rne_of_int by linarith
qed


lemma f64_add_bias_unfold:
  assumes fin: "f64_finite x"
  shows "f64_add x (f64_pack False 1059 (2 ^ 51)) =
    (let e = min (f64_exp2 x) (- 16);
         n = f64_sig x * 2 ^ nat (f64_exp2 x - e) + 3 * 2 ^ 51 * 2 ^ nat (- 16 - e)
     in if n = 0 then f64_pack (f64_sign x \<and> False) 0 0
        else f64_round (n < 0) (nat \<bar>n\<bar>) e)"
  unfolding f64_add_def bias_decode(3,4) bias_fields
  using f64_finite_not_special [OF fin] bias_decode(1,2) by (simp only: if_False simp_thms)

lemma f64_add_bias:
  assumes fin: "f64_finite x" and bound: "\<bar>f64_val x\<bar> \<le> 2 ^ 34"
  shows "f64_add x (f64_pack False 1059 (2 ^ 51)) =
         f64_pack False 1059 (nat (2 ^ 51 + rne (f64_val x * 2 ^ 16)))"
proof -
  define s where "s = f64_sig x"
  define e where "e = f64_exp2 x"
  define R where "R = rne (f64_val x * 2 ^ 16)"
  have val: "f64_val x = of_int s * 2 powi e"
    by (simp add: f64_val_def s_def e_def)
  have "\<bar>f64_val x * 2 ^ 16\<bar> \<le> 2 ^ 34 * 2 ^ 16"
    unfolding abs_mult using bound by (intro mult_mono) simp_all
  then have vb: "\<bar>f64_val x * 2 ^ 16\<bar> \<le> of_int (2 ^ 50)" by simp
  have Rb: "\<bar>R\<bar> \<le> 2 ^ 50"
    unfolding R_def using vb by (rule rne_abs_le)
  define q where "q = nat (3 * 2 ^ 51 + R)"
  have tail: "q - 2 ^ 52 = nat (2 ^ 51 + R)"
    and qlo: "2 ^ 52 \<le> q" and qhi: "q < 2 ^ 53" and qR: "int q = 3 * 2 ^ 51 + R"
    using Rb by (simp_all add: q_def)
  show ?thesis
  proof (cases "- 16 \<le> e")
    case True
    define n where "n = s * 2 ^ nat (e + 16) + 3 * 2 ^ 51"
    have sc: "f64_val x * 2 ^ 16 = of_int (s * 2 ^ nat (e + 16))"
      using True by (simp add: val powi_scale mult.assoc del: power_numeral)
    have R: "R = s * 2 ^ nat (e + 16)"
      unfolding R_def sc by (rule rne_of_int)
    have n: "n = 3 * 2 ^ 51 + R" by (simp add: n_def R)
    have npos: "0 < n" "\<not> n < 0" "n \<noteq> 0" "nat \<bar>n\<bar> = q"
      using Rb by (simp_all add: n q_def)
    have fl: "floorlog 2 q = 53"
      using qlo qhi by (intro floorlog2_eq) simp_all
    have rd: "f64_round False q (- 16) = f64_pack False 1059 (q - 2 ^ 52)"
      using f64_round_normal [of q "- 16" False] qlo
      by (simp add: fl)
    have mn: "min e (- 16) = - 16" using True by simp
    have "f64_add x (f64_pack False 1059 (2 ^ 51)) =
        (if n = 0 then f64_pack False 0 0 else f64_round (n < 0) (nat \<bar>n\<bar>) (- 16))"
      unfolding f64_add_bias_unfold [OF fin] e_def [symmetric] s_def [symmetric] Let_def mn n_def
      by simp
    then have "f64_add x (f64_pack False 1059 (2 ^ 51)) = f64_round (n < 0) (nat \<bar>n\<bar>) (- 16)"
      using npos(3) by simp
    also have "\<dots> = f64_pack False 1059 (q - 2 ^ 52)"
      using npos rd by simp
    finally show ?thesis by (simp only: tail R_def)
  next
    case False
    define k where "k = nat (- 16 - e)"
    have k: "0 < k" "e = - 16 - int k" using False by (simp_all add: k_def)
    define n where "n = s + 3 * 2 ^ 51 * 2 ^ k"
    have sc: "f64_val x * 2 ^ 16 = of_int s / 2 ^ k"
      using False by (simp add: val powi_scale mult.assoc k_def del: power_numeral)
    have "\<bar>of_int s / (2::real) ^ k\<bar> \<le> 2 ^ 50" using vb sc by simp
    then have "\<bar>real_of_int s\<bar> \<le> 2 ^ 50 * 2 ^ k"
      by (simp add: abs_divide pos_divide_le_eq)
    then have "real_of_int \<bar>s\<bar> \<le> real_of_int (2 ^ 50 * 2 ^ k)" by simp
    then have sb: "\<bar>s\<bar> \<le> 2 ^ 50 * 2 ^ k" by (rule of_int_le_iff [THEN iffD1])
    define p where "p = (2::int) ^ k"
    have p: "0 < p" by (simp add: p_def)
    have nlo: "2 ^ 52 * 2 ^ k \<le> n" and nhi: "n < 2 ^ 53 * 2 ^ k"
      using sb p unfolding n_def p_def [symmetric] by simp_all
    have "0 < n" using nlo p unfolding p_def [symmetric] by simp
    then have npos: "\<not> n < 0" "n \<noteq> 0" "nat \<bar>n\<bar> = nat n" "0 < nat n"
      by simp_all
    have "int (2 ^ (52 + k)) \<le> n" using nlo by (simp add: power_add)
    then have l1: "2 ^ (53 + k - 1) \<le> nat n" by simp
    have "n < int (2 ^ (53 + k))" using nhi by (simp add: power_add)
    then have l2: "nat n < 2 ^ (53 + k)" using npos by linarith
    have fl: "floorlog 2 (nat n) = 53 + k"
      using l1 l2 by (intro floorlog2_eq) simp_all
    have dv: "real (nat n) / 2 ^ k = of_int (3 * 2 ^ 51) + of_int s / 2 ^ k"
      using npos by (simp add: n_def field_simps)
    have "rne (of_int (3 * 2 ^ 51) + of_int s / 2 ^ k) = 3 * 2 ^ 51 + rne (of_int s / 2 ^ k)"
      by (rule rne_add_even) simp
    then have "int (rne_shift (nat n) k) = 3 * 2 ^ 51 + R"
      unfolding rne_shift_eq R_def sc dv .
    then have rs: "rne_shift (nat n) k = q" using qR by linarith
    have rd: "f64_round False (nat n) e = f64_pack False 1059 (q - 2 ^ 52)"
      using f64_round_shift [of "nat n" e False] npos(4) k qlo qhi
      by (simp add: fl rs)
    have mn: "min e (- 16) = e" using False by simp
    have "f64_add x (f64_pack False 1059 (2 ^ 51)) =
        (if n = 0 then f64_pack False 0 0 else f64_round (n < 0) (nat \<bar>n\<bar>) e)"
      unfolding f64_add_bias_unfold [OF fin] e_def [symmetric] s_def [symmetric] Let_def mn n_def
      by (simp add: k_def)
    then have "f64_add x (f64_pack False 1059 (2 ^ 51)) = f64_round (n < 0) (nat \<bar>n\<bar>) e"
      using npos(2) by simp
    also have "\<dots> = f64_pack False 1059 (q - 2 ^ 52)"
      using npos rd by simp
    finally show ?thesis by (simp only: tail R_def)
  qed
qed

lemma bias_pattern: "f64_pack False 1059 (2 ^ 51) = 0x4238000000000000"
  by (simp add: f64_pack_def)

lemma float64ToInt32_halves:
  "float64ToInt32 c t x =
     signed_drop_bit 16
       (if NIM_BIG_ENDIAN t = big_endian c
        then ucast (f64_add x (f64_pack False 1059 (2 ^ 51)))
        else ucast (drop_bit 32 (f64_add x (f64_pack False 1059 (2 ^ 51)))))"
  unfolding float64ToInt32_def magic_eq Let_def NIM_IMAN_def
  by (cases "NIM_BIG_ENDIAN t"; cases "big_endian c") (simp_all only: read_NS32_object if_True if_False simp_thms)

lemma ucast_word_of_nat: "(ucast (word_of_nat N :: 64 word) :: 32 word) = word_of_nat N"
proof -
  have "(ucast (word_of_nat N :: 64 word) :: 32 word) = word_of_nat (N mod 2 ^ 64)"
    by (simp add: unsigned_of_nat take_bit_eq_mod)
  also have "\<dots> = word_of_nat N"
    by (simp add: word_of_nat_eq_iff take_bit_eq_mod mod_mod_cancel)
  finally show ?thesis .
qed

lemma word32_drop_high:
  "(word_of_nat (fr + 2 ^ 32 * h) :: 32 word) = word_of_nat fr"
  unfolding word_of_nat_eq_iff take_bit_eq_mod by simp

lemma ucast_f64_pack: "(ucast (f64_pack s ex fr) :: 32 word) = word_of_nat fr"
proof -
  have "(if s then 2 ^ 63 else 0) + ex * 2 ^ 52 + fr =
      fr + 2 ^ 32 * ((if s then 2 ^ 31 else 0) + ex * 2 ^ 20)"
    by simp
  then show ?thesis
    unfolding f64_pack_def ucast_word_of_nat by (simp only: word32_drop_high)
qed

lemma sint_shift16:
  assumes "- (2 ^ 31) \<le> r" "r < 2 ^ 31"
  shows "sint (signed_drop_bit 16 (word_of_int r :: 32 word)) = r div 2 ^ 16"
proof -
  have "signed_take_bit 31 r = r"
    using assms by (simp add: signed_take_bit_int_eq_self)
  then show ?thesis
    by (simp add: sint_signed_drop_bit_eq signed_of_int drop_bit_eq_div)
qed

lemma float64ToInt32_fixed:
  assumes fin: "f64_finite x" and en: "NIM_BIG_ENDIAN t = big_endian c"
    and bound: "\<bar>f64_val x\<bar> \<le> 2 ^ 34"
  shows "float64ToInt32 c t x = signed_drop_bit 16 (word_of_int (rne (f64_val x * 2 ^ 16)))"
proof -
  define R where "R = rne (f64_val x * 2 ^ 16)"
  have "\<bar>f64_val x * 2 ^ 16\<bar> \<le> 2 ^ 34 * 2 ^ 16"
    unfolding abs_mult using bound by (intro mult_mono) simp_all
  then have "\<bar>f64_val x * 2 ^ 16\<bar> \<le> of_int (2 ^ 50)" by simp
  then have Rb: "\<bar>R\<bar> \<le> 2 ^ 50" unfolding R_def by (rule rne_abs_le)
  then have nn: "0 \<le> 2 ^ 51 + R" by simp
  have "(word_of_nat (nat (2 ^ 51 + R)) :: 32 word) = word_of_int (2 ^ 51 + R)"
    using nn by (simp add: word_of_int_nat)
  also have "\<dots> = word_of_int R"
    by (simp add: word_of_int_eq_iff take_bit_eq_mod)
  finally have w: "(word_of_nat (nat (2 ^ 51 + R)) :: 32 word) = word_of_int R" .
  show ?thesis
    unfolding float64ToInt32_halves f64_add_bias [OF fin bound] ucast_f64_pack R_def [symmetric] w
    using en by simp
qed

lemma rne_scaled_bound:
  assumes "\<bar>v\<bar> \<le> 2 ^ 34"
  shows "\<bar>rne (v * 2 ^ 16)\<bar> \<le> 2 ^ 50"
proof -
  have "\<bar>v * 2 ^ 16\<bar> \<le> 2 ^ 34 * 2 ^ 16"
    unfolding abs_mult using assms by (intro mult_mono) simp_all
  then have "\<bar>v * 2 ^ 16\<bar> \<le> of_int (2 ^ 50)" by simp
  then show ?thesis by (rule rne_abs_le)
qed

lemma bias_window_bound:
  assumes fin: "f64_finite x" and bound: "\<bar>f64_val x\<bar> \<le> 2 ^ 34"
  shows "bias_window x"
proof -
  have "\<bar>rne (f64_val x * 2 ^ 16)\<bar> \<le> 2 ^ 50"
    using bound by (rule rne_scaled_bound)
  then have fr: "nat (2 ^ 51 + rne (f64_val x * 2 ^ 16)) < 2 ^ 52" by simp
  show ?thesis
    unfolding bias_window_def magic_eq f64_add_bias [OF fin bound]
    using fin fr by (simp add: f64_expo_pack f64_sign_pack del: power_numeral)
qed

lemma float64ToInt32_sint:
  assumes fin: "f64_finite x" and en: "NIM_BIG_ENDIAN t = big_endian c"
    and lo: "- 32768 \<le> f64_val x" and hi: "f64_val x \<le> 32768 - 1 / 65536"
  shows "sint (float64ToInt32 c t x) = rne (f64_val x * 65536) div 65536"
proof -
  have bound: "\<bar>f64_val x\<bar> \<le> 2 ^ 34" using lo hi by simp
  have "rne (of_int (- 2147483648)) \<le> rne (f64_val x * 65536)"
    using lo by (intro rne_mono) simp
  then have rlo: "- (2 ^ 31) \<le> rne (f64_val x * 65536)"
    unfolding rne_of_int by simp
  have "rne (f64_val x * 65536) \<le> rne (of_int 2147483647)"
    using hi by (intro rne_mono) (simp add: field_simps)
  then have rhi: "rne (f64_val x * 65536) < 2 ^ 31"
    unfolding rne_of_int by simp
  have "float64ToInt32 c t x = signed_drop_bit 16 (word_of_int (rne (f64_val x * 65536)))"
    using float64ToInt32_fixed [OF fin en bound] by simp
  then show ?thesis using sint_shift16 [OF rlo rhi] by simp
qed


lemmas f64_decode_defs = f64_finite_def f64_val_def f64_sig_def f64_mant_def f64_exp2_def
  f64_expo_def f64_frac_def f64_sign_def

lemma f64_examples:
  "f64_finite 0 \<and> f64_val 0 = 0"
  "f64_finite 0xBFE0000000000000 \<and> f64_val 0xBFE0000000000000 = - 1 / 2"
  "f64_finite 0x3FE0000000000000 \<and> f64_val 0x3FE0000000000000 = 1 / 2"
  "f64_finite 0x3FF8000000000000 \<and> f64_val 0x3FF8000000000000 = 3 / 2"
  "f64_finite 0x4004000000000000 \<and> f64_val 0x4004000000000000 = 5 / 2"
  "f64_finite 0xC0E0000000000000 \<and> f64_val 0xC0E0000000000000 = - 32768"
  "f64_finite 0x40DFFFFFFFC00000 \<and> f64_val 0x40DFFFFFFFC00000 = 32768 - 1 / 65536"
  "f64_finite 0x40DFFFC000000000 \<and> f64_val 0x40DFFFC000000000 = 32767"
  "f64_finite 0x40E0000000000000 \<and> f64_val 0x40E0000000000000 = 32768"
  by (simp_all add: f64_decode_defs power_int_minus)

lemma rne_examples:
  "rne (- 32768) = - 32768" "rne 0 = 0" "rne 98304 = 98304" "rne 2147483648 = 2147483648"
  "rne (1 / 2) = 0" "rne (- 1 / 2) = 0" "rne (3 / 2) = 2" "rne (5 / 2) = 2"
  by (simp_all add: rne_def)

section \<open>The conversion routines\<close>

text \<open>
  Claim C2. \<open>float64ToInt32\<close> computes its result by these steps: it adds the bias
  \<open>68719476736.0 * 1.5\<close>, which is \<open>1.5 * 2^36\<close>, sees the 64-bit pattern of the sum as
  two 32-bit words, takes the word at index 1 when \<open>NIM_BIG_ENDIAN\<close> is defined and at
  index 0 otherwise, and shifts it right by 16 bits, keeping the sign.
\<close>

theorem float64ToInt32_steps_eq:
  "float64ToInt32 c t val = float64ToInt32_steps c t val \<and>
   f64_mul lit_68719476736 lit_1_5 = 0x4238000000000000 \<and>
   f64_val (f64_mul lit_68719476736 lit_1_5) = 68719476736 * 1.5"
proof (intro conjI)
  show "float64ToInt32 c t val = float64ToInt32_steps c t val"
    unfolding float64ToInt32_halves float64ToInt32_steps_def bias_pattern Let_def
    by (cases "NIM_BIG_ENDIAN t"; cases "big_endian c") simp_all
  show "f64_mul lit_68719476736 lit_1_5 = 0x4238000000000000"
    by (simp only: magic_eq bias_pattern)
  show "f64_val (f64_mul lit_68719476736 lit_1_5) = 68719476736 * 1.5"
    unfolding magic_eq bias_pattern by (simp add: f64_decode_defs power_int_minus)
qed

theorem float64ToInt32_steps_eq_witness:
  "float64ToInt32 ilp32_be (linux_gcc\<lparr>NIM_BIG_ENDIAN := True\<rparr>) 0x3FF8000000000000 =
   float64ToInt32_steps ilp32_be (linux_gcc\<lparr>NIM_BIG_ENDIAN := True\<rparr>) 0x3FF8000000000000"
  using float64ToInt32_steps_eq [of ilp32_be "linux_gcc\<lparr>NIM_BIG_ENDIAN := True\<rparr>" "0x3FF8000000000000"]
  by simp

lemma native_int:
  assumes "- 32768 \<le> k" "k \<le> 32767" "f64_val x = of_int k"
  shows "sint (native_rint32 x) = k"
proof -
  have "signed_take_bit 31 k = k"
    using assms by (intro signed_take_bit_int_eq_self) simp_all
  then show ?thesis
    unfolding native_rint32_def assms(3) rne_of_int by (simp add: signed_of_int)
qed

text \<open>
  Claim C1, as amended. For every double \<open>x\<close> with \<open>-32768 <= x <= 32768 - 2^-16\<close>, on
  a platform whose byte order \<open>NIM_BIG_ENDIAN\<close> states, \<open>float64ToInt32(x)\<close> is the
  floor of \<open>x\<close> rounded to the nearest multiple of \<open>2^-16\<close> (a tie to the even
  multiple); it equals the native round-to-nearest-even conversion when \<open>x\<close> is an
  integer.
\<close>

theorem float64ToInt32_floor:
  assumes "f64_finite x" and "NIM_BIG_ENDIAN t = big_endian c"
    and "- 32768 \<le> f64_val x" and "f64_val x \<le> 32768 - 1 / 65536"
  shows "sint (float64ToInt32 c t x) = \<lfloor>of_int (rne (f64_val x * 65536)) / (65536 :: real)\<rfloor> \<and>
         (f64_val x \<in> \<int> \<longrightarrow> float64ToInt32 c t x = native_rint32 x)"
proof
  have s: "sint (float64ToInt32 c t x) = rne (f64_val x * 65536) div 65536"
    using assms by (rule float64ToInt32_sint)
  have "\<lfloor>of_int (rne (f64_val x * 65536)) / (of_int 65536 :: real)\<rfloor> =
      rne (f64_val x * 65536) div 65536"
    by (rule floor_divide_of_int_eq)
  then show "sint (float64ToInt32 c t x) = \<lfloor>of_int (rne (f64_val x * 65536)) / (65536 :: real)\<rfloor>"
    using s by simp
  show "f64_val x \<in> \<int> \<longrightarrow> float64ToInt32 c t x = native_rint32 x"
  proof
    assume "f64_val x \<in> \<int>"
    then obtain k where k: "f64_val x = of_int k" by (rule Ints_cases)
    have "of_int (- 32768) \<le> (of_int k :: real)" using assms(3) k by simp
    then have klo: "- 32768 \<le> k" by (simp only: of_int_le_iff)
    have "(of_int k :: real) < of_int 32768" using assms(4) k by simp
    then have khi: "k \<le> 32767" by (simp only: of_int_less_iff)
    have "f64_val x * 65536 = of_int (k * 65536)" by (simp add: k)
    then have "rne (f64_val x * 65536) = k * 65536" by (simp only: rne_of_int)
    then have "sint (float64ToInt32 c t x) = k" using s by simp
    moreover have "sint (native_rint32 x) = k" using klo khi k by (rule native_int)
    ultimately have "sint (float64ToInt32 c t x) = sint (native_rint32 x)"
      by simp
    then show "float64ToInt32 c t x = native_rint32 x"
      by (rule signed_word_eqI)
  qed
qed

lemma le_config: "NIM_BIG_ENDIAN linux_gcc = big_endian lp64_le"
  by (simp add: linux_gcc_def lp64_le_def)

theorem float64ToInt32_floor_witness:
  "sint (float64ToInt32 lp64_le linux_gcc 0) = 0 \<and>
   sint (float64ToInt32 lp64_le linux_gcc 0xBFE0000000000000) = - 1 \<and>
   sint (float64ToInt32 lp64_le linux_gcc 0x3FE0000000000000) = 0 \<and>
   sint (float64ToInt32 lp64_le linux_gcc 0x3FF8000000000000) = 1 \<and>
   sint (float64ToInt32 lp64_le linux_gcc 0x4004000000000000) = 2 \<and>
   sint (float64ToInt32 lp64_le linux_gcc 0xC0E0000000000000) = - 32768 \<and>
   sint (float64ToInt32 lp64_le linux_gcc 0x40DFFFFFFFC00000) = 32767"
  using float64ToInt32_floor [where x = 0 and c = lp64_le and t = linux_gcc]
    float64ToInt32_floor [where x = "0xBFE0000000000000" and c = lp64_le and t = linux_gcc]
    float64ToInt32_floor [where x = "0x3FE0000000000000" and c = lp64_le and t = linux_gcc]
    float64ToInt32_floor [where x = "0x3FF8000000000000" and c = lp64_le and t = linux_gcc]
    float64ToInt32_floor [where x = "0x4004000000000000" and c = lp64_le and t = linux_gcc]
    float64ToInt32_floor [where x = "0xC0E0000000000000" and c = lp64_le and t = linux_gcc]
    float64ToInt32_floor [where x = "0x40DFFFFFFFC00000" and c = lp64_le and t = linux_gcc]
  by (simp add: f64_examples le_config rne_def native_rint32_def)

theorem float64ToInt32_native_counterexample:
  "bias_window 0x3FF8000000000000 \<and>
   sint (float64ToInt32 lp64_le linux_gcc 0x3FF8000000000000) = 1 \<and>
   sint (native_rint32 0x3FF8000000000000) = 2 \<and>
   float64ToInt32 lp64_le linux_gcc 0x3FF8000000000000 \<noteq> native_rint32 0x3FF8000000000000"
proof -
  have w: "bias_window 0x3FF8000000000000"
    by (rule bias_window_bound) (simp_all add: f64_examples)
  have a: "sint (float64ToInt32 lp64_le linux_gcc 0x3FF8000000000000) = 1"
    using float64ToInt32_sint [where x = "0x3FF8000000000000" and c = lp64_le and t = linux_gcc]
    by (simp add: f64_examples le_config rne_def)
  have b: "sint (native_rint32 0x3FF8000000000000) = 2"
    by (simp add: native_rint32_def f64_examples rne_def)
  from a b have "float64ToInt32 lp64_le linux_gcc 0x3FF8000000000000 \<noteq> native_rint32 0x3FF8000000000000"
    by auto
  with w a b show ?thesis by simp
qed

text \<open>
  Claim C9, as amended. \<open>float64ToInt32\<close> is monotone on the 16.16 fixed-point range: for
  doubles \<open>x <= y\<close> with \<open>-32768 <= x\<close> and \<open>y <= 32768 - 2^-16\<close>, the result for
  \<open>x\<close> is at most the result for \<open>y\<close>.
\<close>

theorem float64ToInt32_monotone:
  assumes "f64_finite x" and "f64_finite y" and "NIM_BIG_ENDIAN t = big_endian c"
    and "- 32768 \<le> f64_val x" and "f64_val x \<le> f64_val y" and "f64_val y \<le> 32768 - 1 / 65536"
  shows "sint (float64ToInt32 c t x) \<le> sint (float64ToInt32 c t y)"
proof -
  have x: "sint (float64ToInt32 c t x) = rne (f64_val x * 65536) div 65536"
    using assms by (intro float64ToInt32_sint) simp_all
  have y: "sint (float64ToInt32 c t y) = rne (f64_val y * 65536) div 65536"
    using assms by (intro float64ToInt32_sint) simp_all
  have "rne (f64_val x * 65536) \<le> rne (f64_val y * 65536)"
    using assms(5) by (intro rne_mono) simp
  then show ?thesis unfolding x y by (intro zdiv_mono1) simp_all
qed

theorem float64ToInt32_monotone_witness:
  "sint (float64ToInt32 lp64_le linux_gcc 0x3FE0000000000000) \<le>
   sint (float64ToInt32 lp64_le linux_gcc 0x3FF8000000000000)"
  using float64ToInt32_monotone [where x = "0x3FE0000000000000" and y = "0x3FF8000000000000"
      and c = lp64_le and t = linux_gcc]
  by (simp add: f64_examples le_config)

theorem float64ToInt32_monotone_counterexample:
  "bias_window 0x40DFFFC000000000 \<and> bias_window 0x40E0000000000000 \<and>
   f64_val 0x40DFFFC000000000 \<le> f64_val 0x40E0000000000000 \<and>
   sint (float64ToInt32 lp64_le linux_gcc 0x40DFFFC000000000) = 32767 \<and>
   sint (float64ToInt32 lp64_le linux_gcc 0x40E0000000000000) = - 32768 \<and>
   \<not> sint (float64ToInt32 lp64_le linux_gcc 0x40DFFFC000000000)
      \<le> sint (float64ToInt32 lp64_le linux_gcc 0x40E0000000000000)"
proof -
  have w1: "bias_window 0x40DFFFC000000000"
    by (rule bias_window_bound) (simp_all add: f64_examples)
  have w2: "bias_window 0x40E0000000000000"
    by (rule bias_window_bound) (simp_all add: f64_examples)
  have a: "sint (float64ToInt32 lp64_le linux_gcc 0x40DFFFC000000000) = 32767"
    using float64ToInt32_sint [where x = "0x40DFFFC000000000" and c = lp64_le and t = linux_gcc]
    by (simp add: f64_examples le_config rne_def)
  have "float64ToInt32 lp64_le linux_gcc 0x40E0000000000000 =
      signed_drop_bit 16 (word_of_int (rne (f64_val 0x40E0000000000000 * 2 ^ 16)))"
    by (rule float64ToInt32_fixed) (simp_all add: f64_examples le_config)
  then have b: "sint (float64ToInt32 lp64_le linux_gcc 0x40E0000000000000) = - 32768"
    by (simp add: f64_examples rne_def)
  from w1 w2 a b show ?thesis by (simp add: f64_examples)
qed

lemma normalise_bounds:
  assumes m: "0 < m" and L: "floorlog 2 m \<le> 53"
  shows "2 ^ 52 \<le> m * 2 ^ (53 - floorlog 2 m)" and "m * 2 ^ (53 - floorlog 2 m) < 2 ^ 53"
proof -
  define l where "l = floorlog 2 m"
  have l0: "0 < l" using m by (simp add: l_def floorlog_def)
  have b: "2 ^ (l - 1) \<le> m" "m < 2 ^ l"
    using floorlog_bounds [of m 2] m by (simp_all add: l_def)
  have "(2::nat) ^ 52 = 2 ^ (l - 1) * 2 ^ (53 - l)"
    using l0 L unfolding l_def [symmetric] by (simp flip: power_add)
  also have "\<dots> \<le> m * 2 ^ (53 - l)"
    by (rule mult_le_mono1) (rule b(1))
  finally show "2 ^ 52 \<le> m * 2 ^ (53 - floorlog 2 m)" unfolding l_def .
  have "m * 2 ^ (53 - l) < 2 ^ l * 2 ^ (53 - l)"
    using b(2) by simp
  also have "(2::nat) ^ l * 2 ^ (53 - l) = 2 ^ 53"
    using L unfolding l_def [symmetric] by (simp flip: power_add)
  finally show "m * 2 ^ (53 - floorlog 2 m) < 2 ^ 53" unfolding l_def .
qed

lemma f64_val_zero: "f64_finite (f64_pack s 0 0)" "f64_val (f64_pack s 0 0) = 0"
  by (simp_all add: f64_finite_def f64_val_def f64_sig_def f64_mant_def f64_expo_pack f64_frac_pack)

lemma f64_round_widen:
  assumes m: "m < 2 ^ 24" and lo: "- 149 \<le> e" and hi: "e \<le> 104"
  shows "f64_finite (f64_round s m e)"
    and "f64_val (f64_round s m e) = (if s then - 1 else 1) * real m * 2 powi e"
proof -
  have "f64_finite (f64_round s m e) \<and>
      f64_val (f64_round s m e) = (if s then - 1 else 1) * real m * 2 powi e"
  proof (cases "m = 0")
    case True
    then show ?thesis by (simp add: f64_round_def f64_val_zero)
  next
    case False
    define l where "l = floorlog 2 m"
    define q where "q = m * 2 ^ (53 - l)"
    define t where "t = e + int l - 53"
    have mpos: "0 < m" using False by simp
    have l24: "l \<le> 24" using m by (simp add: l_def floorlog_le_iff)
    have l0: "0 < l" using mpos by (simp add: l_def floorlog_def)
    have q: "2 ^ 52 \<le> q" "q < 2 ^ 53"
      using normalise_bounds [OF mpos] l24 unfolding q_def l_def by simp_all
    have t: "- 1074 \<le> t" "t \<le> 971" "0 < nat (t + 1075)" "nat (t + 1075) < 2047"
      "int (nat (t + 1075)) - 1075 = t"
      using lo hi l24 l0 by (simp_all add: t_def)
    have r: "f64_round s m e = f64_pack s (nat (t + 1075)) (q - 2 ^ 52)"
      using f64_round_normal [of m e s] mpos l24 t(1,2)
      unfolding l_def [symmetric] t_def [symmetric] q_def [symmetric] by simp
    have fr: "q - 2 ^ 52 < 2 ^ 52" "2 ^ 52 + (q - 2 ^ 52) = q" using q by simp_all
    have fin: "f64_finite (f64_round s m e)"
      unfolding r using t(3,4) fr(1) by (rule f64_decode_pack(1))
    have sg: "f64_sig (f64_round s m e) = (if s then - int q else int q)"
      unfolding r f64_decode_pack(4) [OF t(3,4) fr(1)] fr(2) ..
    have ex: "f64_exp2 (f64_round s m e) = t"
      unfolding r f64_decode_pack(3) [OF t(3,4) fr(1)] by (rule t(5))
    have "(2::real) ^ (53 - l) * 2 powi t = 2 powi (int (53 - l)) * 2 powi t" by simp
    also have "\<dots> = 2 powi (int (53 - l) + t)" by (simp add: power_int_add)
    also have "int (53 - l) + t = e" using l24 by (simp add: t_def)
    finally have sc: "(2::real) ^ (53 - l) * 2 powi t = 2 powi e" .
    have "real q * 2 powi t = real m * ((2::real) ^ (53 - l) * 2 powi t)"
      by (simp add: q_def)
    then have "real q * 2 powi t = real m * 2 powi e" by (simp only: sc)
    then have "f64_val (f64_round s m e) = (if s then - 1 else 1) * real m * 2 powi e"
      unfolding f64_val_def sg ex by simp
    with fin show ?thesis by simp
  qed
  then show "f64_finite (f64_round s m e)"
    and "f64_val (f64_round s m e) = (if s then - 1 else 1) * real m * 2 powi e"
    by simp_all
qed

lemma f32_decode_bounds:
  "f32_mant x < 2 ^ 24" "- 149 \<le> f32_exp2 x" "f32_finite x \<Longrightarrow> f32_exp2 x \<le> 104"
proof -
  have "f32_frac x < 2 ^ 23" by (simp add: f32_frac_def)
  then show "f32_mant x < 2 ^ 24" by (simp add: f32_mant_def)
  show "- 149 \<le> f32_exp2 x" by (simp add: f32_exp2_def)
  show "f32_finite x \<Longrightarrow> f32_exp2 x \<le> 104" by (simp add: f32_exp2_def f32_finite_def)
qed

lemma f64_of_f32_exact:
  assumes "f32_finite x"
  shows "f64_finite (f64_of_f32 x)" and "f64_val (f64_of_f32 x) = f32_val x"
proof -
  have r: "f64_of_f32 x = f64_round (f32_sign x) (f32_mant x) (f32_exp2 x)"
    using assms by (simp add: f64_of_f32_def f32_finite_def)
  show "f64_finite (f64_of_f32 x)"
    unfolding r using f32_decode_bounds(1,2) f32_decode_bounds(3) [OF assms]
    by (rule f64_round_widen(1))
  show "f64_val (f64_of_f32 x) = f32_val x"
    unfolding r f32_val_def using f32_decode_bounds(1,2) f32_decode_bounds(3) [OF assms]
    by (rule f64_round_widen(2))
qed

lemma f64_of_f32_special:
  assumes "\<not> f32_finite x"
  shows "\<not> f64_finite (f64_of_f32 x)"
proof -
  have e: "f32_expo x = 255"
    using assms by (simp add: f32_finite_def f32_expo_def)
  have "f32_frac x mod 2 ^ 22 < 2 ^ 22" by simp
  then have "(f32_frac x mod 2 ^ 22) * 2 ^ 29 < 2 ^ 22 * 2 ^ 29"
    by (simp only: mult_less_cancel2) simp
  then have fr: "2 ^ 51 + (f32_frac x mod 2 ^ 22) * 2 ^ 29 < 2 ^ 52" by simp
  show ?thesis
    using fr by (simp add: f64_of_f32_def e f64_finite_def f64_expo_pack del: power_numeral)
qed

text \<open>
  Claim C8. For every float \<open>x\<close>, \<open>float32ToInt32(x)\<close> is \<open>float64ToInt32\<close> applied to
  \<open>(double)x\<close>, and nothing else is computed; the widening is exact: a finite float
  becomes the finite double of the same value, an infinity or NaN stays one.
\<close>

theorem float32ToInt32_widens:
  "float32ToInt32 c t x = float64ToInt32 c t (f64_of_f32 x) \<and>
   (f32_finite x \<longrightarrow> f64_finite (f64_of_f32 x) \<and> f64_val (f64_of_f32 x) = f32_val x) \<and>
   (\<not> f32_finite x \<longrightarrow> \<not> f64_finite (f64_of_f32 x))"
  by (simp add: float32ToInt32_def f64_of_f32_exact f64_of_f32_special)

lemma f32_example: "f32_finite 0x3FC00000 \<and> f32_val 0x3FC00000 = 3 / 2"
  by (simp add: f32_finite_def f32_val_def f32_mant_def f32_exp2_def f32_expo_def f32_frac_def
      f32_sign_def power_int_minus)

theorem float32ToInt32_widens_witness:
  "f64_finite (f64_of_f32 0x3FC00000) \<and> f64_val (f64_of_f32 0x3FC00000) = 3 / 2 \<and>
   sint (float32ToInt32 lp64_le linux_gcc 0x3FC00000) = 1"
proof -
  have w: "float32ToInt32 lp64_le linux_gcc 0x3FC00000 =
        float64ToInt32 lp64_le linux_gcc (f64_of_f32 0x3FC00000)"
    and f: "f64_finite (f64_of_f32 0x3FC00000)"
    and v: "f64_val (f64_of_f32 0x3FC00000) = 3 / 2"
    using float32ToInt32_widens [of lp64_le linux_gcc "0x3FC00000"]
    by (simp_all add: f32_example)
  have "sint (float64ToInt32 lp64_le linux_gcc (f64_of_f32 0x3FC00000)) = 1"
    using float64ToInt32_sint [OF f le_config] by (simp add: v rne_def)
  with w f v show ?thesis by simp
qed


end
